theory Spec2Isabelle
  imports Main "HOL-Library.Multiset" "HOL-Library.Sublist"
begin

section \<open>Vector storage extension: data model\<close>

text \<open>
  The development embeds the vector storage extension (the file under
  \<^verbatim>\<open>src/unnamed/part_001\<close>): the hash diff of \<^verbatim>\<open>synchronizeChat\<close>, its
  re-entrancy flag, the requests of the vector client, the chunking of new items and the
  rearrangement of the chat by \<^verbatim>\<open>rearrangeChat\<close>.

  JavaScript numbers that are hashes, indices, counts and sizes are modelled as \<open>int\<close>;
  strings as \<open>string\<close>. A message object is identified by a reference (\<open>ref\<close>); the chat
  array is a list of references into a heap, because \<^verbatim>\<open>Array.prototype.includes\<close> and
  \<^verbatim>\<open>indexOf\<close> compare message objects by identity.
\<close>

type_synonym ref = nat

record message =
  name :: string
  mes :: string
  is_system :: bool

type_synonym heap = "ref \<Rightarrow> message"

text \<open>
  An object with a \<^verbatim>\<open>text\<close> field (named \<open>item_text\<close>), and its extension to a vector
  item \<^verbatim>\<open>{ text, hash, index }\<close>.
\<close>

record text_obj =
  item_text :: string

record item = text_obj +
  hash :: int
  index :: int

subsection \<open>Array and string primitives of the language\<close>

text \<open>A string is falsy exactly when it is empty.\<close>

definition truthy :: "string \<Rightarrow> bool" where
  "truthy s = (s \<noteq> [])"

text \<open>\<^verbatim>\<open>xs.includes(x)\<close>.\<close>

primrec includes_arr :: "'a list \<Rightarrow> 'a \<Rightarrow> bool" where
  "includes_arr [] x = False"
| "includes_arr (y # ys) x = (y = x \<or> includes_arr ys x)"

text \<open>\<^verbatim>\<open>xs.some(p)\<close>.\<close>

primrec some :: "'a list \<Rightarrow> ('a \<Rightarrow> bool) \<Rightarrow> bool" where
  "some [] p = False"
| "some (y # ys) p = (p y \<or> some ys p)"

text \<open>\<^verbatim>\<open>xs.indexOf(x)\<close>: the first position of \<open>x\<close>, or \<open>-1\<close>.\<close>

primrec indexOf :: "'a list \<Rightarrow> 'a \<Rightarrow> int" where
  "indexOf [] x = -1"
| "indexOf (y # ys) x =
     (if y = x then 0 else (let r = indexOf ys x in if r < 0 then -1 else r + 1))"

text \<open>
  \<^verbatim>\<open>xs.slice(start)\<close> and \<^verbatim>\<open>xs.slice(0, end)\<close>: a negative bound counts from the end of the
  array, and both bounds are clamped to the array.
\<close>

definition relativeIndex :: "nat \<Rightarrow> int \<Rightarrow> nat" where
  "relativeIndex len i = nat (if i < 0 then max (int len + i) 0 else min i (int len))"

definition slice_from :: "'a list \<Rightarrow> int \<Rightarrow> 'a list" where
  "slice_from xs start = drop (relativeIndex (length xs) start) xs"

definition slice_to :: "'a list \<Rightarrow> int \<Rightarrow> 'a list" where
  "slice_to xs end' = take (relativeIndex (length xs) end') xs"

text \<open>\<^verbatim>\<open>xs.splice(start, 1)\<close>: removes one element at the (relative) position \<open>start\<close>.\<close>

definition splice1 :: "'a list \<Rightarrow> int \<Rightarrow> 'a list" where
  "splice1 xs start =
     (let k = relativeIndex (length xs) start in take k xs @ drop (Suc k) xs)"

text \<open>\<^verbatim>\<open>xs.join(sep)\<close> on an array of strings.\<close>

fun join :: "string list \<Rightarrow> string \<Rightarrow> string" where
  "join [] sep = []"
| "join [x] sep = x"
| "join (x # y # ys) sep = x @ sep @ join (y # ys) sep"

text \<open>
  Modelled from the spec: \<^verbatim>\<open>onlyUnique\<close> of \<^verbatim>\<open>utils.js\<close> (not under \<^verbatim>\<open>src/\<close>), the
  callback of \<^verbatim>\<open>xs.filter(onlyUnique)\<close> that deduplicates: an element stays when it stands
  at the first position of its value.
\<close>

definition filter_onlyUnique :: "'a list \<Rightarrow> 'a list" where
  "filter_onlyUnique xs =
     map fst (filter (\<lambda>(value, i). indexOf xs value = int i) (zip xs [0 ..< length xs]))"

subsection \<open>Settings, collaborators and the module state\<close>

text \<open>
  The fields of \<^verbatim>\<open>settings\<close> that the embedded functions read. \<^verbatim>\<open>settings.insert\<close> and
  \<^verbatim>\<open>settings.summarize\<close> are named \<open>insert_s\<close> and \<open>summarize_s\<close>. Prompt positions and
  roles are the numbers of \<^verbatim>\<open>extension_prompt_types\<close> and \<^verbatim>\<open>extension_prompt_roles\<close>.
  The score threshold, a floating point number that is only passed on to the server, is
  left out.
\<close>

record settings =
  source :: string
  include_wi :: bool
  ollama_model :: string
  summarize_s :: bool
  summarize_sent :: bool
  summary_source :: string
  enabled_chats :: bool
  template :: string
  depth :: int
  position :: int
  protect :: int
  insert_s :: int
  query :: int
  message_chunk_size :: int
  enabled_files :: bool
  enabled_world_info :: bool
  chunk_count_db :: int
  file_template_db :: string
  file_position_db :: int
  file_depth_db :: int
  file_depth_role_db :: int

datatype secret_key = OPENAI | MAKERSUITE | MISTRALAI | TOGETHERAI | NOMICAI | COHERE

datatype textgen_type = OLLAMA | LLAMACPP

text \<open>
  What a call reads from its surroundings: the settings, the secrets and server URLs, the
  registered modules of the Extras API, the current chat id (\<^verbatim>\<open>undefined\<close> is the empty
  string), the chat array of the context (\<open>None\<close> when it is \<^verbatim>\<open>undefined\<close>) and the heap of
  message objects. A call works on one snapshot of them.
\<close>

record env =
  settings :: settings
  secret_state :: "secret_key \<Rightarrow> bool"
  server_urls :: "textgen_type \<Rightarrow> string"
  modules :: "string list"
  chatId :: string
  chat :: "ref list option"
  heap :: heap

text \<open>
  Functions of other modules (\<^verbatim>\<open>script.js\<close>, \<^verbatim>\<open>utils.js\<close>, \<^verbatim>\<open>power-user.js\<close>), which
  are not under \<^verbatim>\<open>src/\<close>, and the built-in template replacement
  \<^verbatim>\<open>template.replace(/{{text}}/i, text)\<close> are parameters of the model.
\<close>

record externals =
  substituteParams :: "string \<Rightarrow> string"
  calculateHash :: "string \<Rightarrow> int"
  collapseNewlines :: "string \<Rightarrow> string"
  splitRecursive :: "string \<Rightarrow> int \<Rightarrow> string list"
  replaceText :: "string \<Rightarrow> string \<Rightarrow> string"

text \<open>The requests of the vector client, by endpoint, with the fields of their bodies.\<close>

datatype request =
    ListReq string string
  | InsertReq string "item list" string
  | DeleteReq string "int list" string
  | QueryReq string string int string
  | QueryMultiReq "string list" string int string
  | PurgeReq string

text \<open>
  The slots of \<^verbatim>\<open>setExtensionPrompt\<close>: text, position, depth, the world-info flag and the
  role (\<open>None\<close> when the call passes none).
\<close>

record prompt =
  prompt_text :: string
  prompt_position :: int
  prompt_depth :: int
  prompt_scan :: bool
  prompt_role :: "int option"

text \<open>
  The state the module changes: the flag \<^verbatim>\<open>syncBlocked\<close>, the requests issued so far (in
  the order of issue) and the prompt slots by tag.
\<close>

record state =
  syncBlocked :: bool
  requests :: "request list"
  prompts :: "string \<rightharpoonup> prompt"

text \<open>
  Exceptions: an \<^verbatim>\<open>Error\<close> with its optional \<^verbatim>\<open>cause\<close>, or a \<^verbatim>\<open>TypeError\<close> of the
  runtime. Messages are left out.
\<close>

datatype cause = api_key_missing | api_url_missing | api_model_missing | extras_module_missing

datatype exn = Error "cause option" | TypeError

subsection \<open>Content hasher\<close>

text \<open>
  \<^verbatim>\<open>getStringHash\<close> looks the string up in \<^verbatim>\<open>hashCache\<close> and computes and stores the hash
  when it is absent. The cache only ever holds values of \<^verbatim>\<open>calculateHash\<close>, so the other
  functions use the cache-free \<open>getStringHash\<close>.
\<close>

definition getStringHash_cached ::
  "externals \<Rightarrow> (string \<rightharpoonup> int) \<Rightarrow> string \<Rightarrow> int \<times> (string \<rightharpoonup> int)" where
  "getStringHash_cached ext hashCache str =
     (case hashCache str of
        Some h \<Rightarrow> (h, hashCache)
      | None \<Rightarrow> (let h = calculateHash ext str in (h, hashCache(str \<mapsto> h))))"

definition getStringHash :: "externals \<Rightarrow> string \<Rightarrow> int" where
  "getStringHash ext str = calculateHash ext str"

definition cache_consistent :: "externals \<Rightarrow> (string \<rightharpoonup> int) \<Rightarrow> bool" where
  "cache_consistent ext hashCache =
     (\<forall>s h. hashCache s = Some h \<longrightarrow> h = calculateHash ext s)"

subsection \<open>Remote vector client\<close>

text \<open>
  A response is \<open>None\<close> when the request fails (the fetch rejects or the status is not
  ok) and the data of the response otherwise. The source-specific headers of
  \<^verbatim>\<open>getVectorHeaders\<close> are not part of the model of a request.
\<close>

definition throwIfSourceInvalid :: "env \<Rightarrow> exn + unit" where
  "throwIfSourceInvalid e =
     (let src = source (settings e) in
      if (src = ''openai'' \<and> \<not> secret_state e OPENAI) \<or>
         (src = ''palm'' \<and> \<not> secret_state e MAKERSUITE) \<or>
         (src = ''mistral'' \<and> \<not> secret_state e MISTRALAI) \<or>
         (src = ''togetherai'' \<and> \<not> secret_state e TOGETHERAI) \<or>
         (src = ''nomicai'' \<and> \<not> secret_state e NOMICAI) \<or>
         (src = ''cohere'' \<and> \<not> secret_state e COHERE)
      then Inl (Error (Some api_key_missing))
      else if (src = ''ollama'' \<and> \<not> truthy (server_urls e OLLAMA)) \<or>
              (src = ''llamacpp'' \<and> \<not> truthy (server_urls e LLAMACPP))
      then Inl (Error (Some api_url_missing))
      else if src = ''ollama'' \<and> \<not> truthy (ollama_model (settings e))
      then Inl (Error (Some api_model_missing))
      else if src = ''extras'' \<and> \<not> includes_arr (modules e) ''embeddings''
      then Inl (Error (Some extras_module_missing))
      else Inr ())"

definition send :: "request \<Rightarrow> state \<Rightarrow> state" where
  "send r s = s\<lparr>requests := requests s @ [r]\<rparr>"

definition getSavedHashes ::
  "env \<Rightarrow> string \<Rightarrow> int list option \<Rightarrow> state \<Rightarrow> (exn + int list) \<times> state" where
  "getSavedHashes e collectionId response s =
     (let s' = send (ListReq collectionId (source (settings e))) s in
      case response of
        None \<Rightarrow> (Inl (Error None), s')
      | Some hashes \<Rightarrow> (Inr hashes, s'))"

definition insertVectorItems ::
  "env \<Rightarrow> string \<Rightarrow> item list \<Rightarrow> unit option \<Rightarrow> state \<Rightarrow> (exn + unit) \<times> state" where
  "insertVectorItems e collectionId items response s =
     (case throwIfSourceInvalid e of
        Inl x \<Rightarrow> (Inl x, s)
      | Inr _ \<Rightarrow>
          (let s' = send (InsertReq collectionId items (source (settings e))) s in
           case response of
             None \<Rightarrow> (Inl (Error None), s')
           | Some _ \<Rightarrow> (Inr (), s')))"

definition deleteVectorItems ::
  "env \<Rightarrow> string \<Rightarrow> int list \<Rightarrow> unit option \<Rightarrow> state \<Rightarrow> (exn + unit) \<times> state" where
  "deleteVectorItems e collectionId hashes response s =
     (let s' = send (DeleteReq collectionId hashes (source (settings e))) s in
      case response of
        None \<Rightarrow> (Inl (Error None), s')
      | Some _ \<Rightarrow> (Inr (), s'))"

text \<open>A query result \<^verbatim>\<open>{ hashes, metadata }\<close>.\<close>

record query_result =
  hashes :: "int list"
  metadata :: "item list"

definition queryCollection ::
  "env \<Rightarrow> string \<Rightarrow> string \<Rightarrow> int \<Rightarrow> query_result option \<Rightarrow> state
     \<Rightarrow> (exn + query_result) \<times> state" where
  "queryCollection e collectionId searchText topK response s =
     (let s' = send (QueryReq collectionId searchText topK (source (settings e))) s in
      case response of
        None \<Rightarrow> (Inl (Error None), s')
      | Some r \<Rightarrow> (Inr r, s'))"

text \<open>
  The result of a multi-collection query is an object keyed by collection id; it is an
  association list in the order in which \<^verbatim>\<open>for ... in\<close> enumerates the keys. The metadata
  of a collection is \<open>None\<close> when the field is absent.
\<close>

type_synonym multi_result = "(string \<times> item list option) list"

definition queryMultipleCollections ::
  "env \<Rightarrow> string list \<Rightarrow> string \<Rightarrow> int \<Rightarrow> multi_result option \<Rightarrow> state
     \<Rightarrow> (exn + multi_result) \<times> state" where
  "queryMultipleCollections e collectionIds searchText topK response s =
     (let s' = send (QueryMultiReq collectionIds searchText topK (source (settings e))) s in
      case response of
        None \<Rightarrow> (Inl (Error None), s')
      | Some r \<Rightarrow> (Inr r, s'))"

text \<open>The secret that a source needs, by the first condition of \<^verbatim>\<open>throwIfSourceInvalid\<close>.\<close>

definition required_secret :: "string \<Rightarrow> secret_key option" where
  "required_secret src =
     (if src = ''openai'' then Some OPENAI
      else if src = ''palm'' then Some MAKERSUITE
      else if src = ''mistral'' then Some MISTRALAI
      else if src = ''togetherai'' then Some TOGETHERAI
      else if src = ''nomicai'' then Some NOMICAI
      else if src = ''cohere'' then Some COHERE
      else None)"

text \<open>\<^verbatim>\<open>purgeVectorIndex\<close> catches its own errors and returns whether it succeeded.\<close>

definition purgeVectorIndex ::
  "env \<Rightarrow> string \<Rightarrow> unit option \<Rightarrow> state \<Rightarrow> bool \<times> state" where
  "purgeVectorIndex e collectionId response s =
     (if \<not> enabled_chats (settings e) then (True, s)
      else
        (let s' = send (PurgeReq collectionId) s in
         case response of
           None \<Rightarrow> (False, s')
         | Some _ \<Rightarrow> (True, s')))"

subsection \<open>Chunking of new items\<close>

text \<open>The inner loop of \<^verbatim>\<open>splitByChunks\<close>: one copy of the item per chunk, with the chunk as text.\<close>

fun pushChunks :: "item \<Rightarrow> string list \<Rightarrow> item list \<Rightarrow> item list" where
  "pushChunks item [] chunkedItems = chunkedItems"
| "pushChunks item (chunk # chunks) chunkedItems =
     pushChunks item chunks (chunkedItems @ [item\<lparr>item_text := chunk\<rparr>])"

fun chunkLoop :: "externals \<Rightarrow> int \<Rightarrow> item list \<Rightarrow> item list \<Rightarrow> item list" where
  "chunkLoop ext chunk_size [] chunkedItems = chunkedItems"
| "chunkLoop ext chunk_size (item # items) chunkedItems =
     chunkLoop ext chunk_size items
       (pushChunks item (splitRecursive ext (item_text item) chunk_size) chunkedItems)"

definition splitByChunks :: "externals \<Rightarrow> settings \<Rightarrow> item list \<Rightarrow> item list" where
  "splitByChunks ext st items =
     (if message_chunk_size st \<le> 0 then items
      else chunkLoop ext (message_chunk_size st) items [])"

subsection \<open>Summarization\<close>

text \<open>
  The text generation of \<^verbatim>\<open>generateRaw\<close> and the Extras summarize endpoint are answers
  given from outside: \<open>None\<close> is a call that throws (\<open>generateRaw\<close>) or a request that
  fails or is not ok (Extras; the element then keeps its text).
\<close>

record summary_io =
  generateRaw :: "string \<Rightarrow> string option"
  extras_summary :: "string \<Rightarrow> string option"

fun summarizeMain ::
  "('a text_obj_scheme) list \<Rightarrow> (string \<Rightarrow> string option) \<Rightarrow> exn + ('a text_obj_scheme) list" where
  "summarizeMain [] gen = Inr []"
| "summarizeMain (element # rest) gen =
     (case gen (item_text element) of
        None \<Rightarrow> Inl (Error None)
      | Some t \<Rightarrow>
          (case summarizeMain rest gen of
             Inl x \<Rightarrow> Inl x
           | Inr rest' \<Rightarrow> Inr (element\<lparr>item_text := t\<rparr> # rest')))"

definition summarizeExtra ::
  "('a text_obj_scheme) list \<Rightarrow> (string \<Rightarrow> string option) \<Rightarrow> ('a text_obj_scheme) list" where
  "summarizeExtra hashedMessages api =
     map (\<lambda>element. case api (item_text element) of
                       Some summary \<Rightarrow> element\<lparr>item_text := summary\<rparr>
                     | None \<Rightarrow> element) hashedMessages"

text \<open>An unsupported endpoint returns \<^verbatim>\<open>undefined\<close>: the result \<open>Inr None\<close>.\<close>

definition summarize ::
  "summary_io \<Rightarrow> ('a text_obj_scheme) list \<Rightarrow> string
     \<Rightarrow> exn + ('a text_obj_scheme) list option" where
  "summarize sio hashedMessages endpoint =
     (if endpoint = ''main'' then
        (case summarizeMain hashedMessages (generateRaw sio) of
           Inl x \<Rightarrow> Inl x
         | Inr r \<Rightarrow> Inr (Some r))
      else if endpoint = ''extras'' then
        Inr (Some (summarizeExtra hashedMessages (extras_summary sio)))
      else Inr None)"

subsection \<open>Collection differ and synchronizer\<close>

definition hashedMessagesOf :: "externals \<Rightarrow> heap \<Rightarrow> ref list \<Rightarrow> item list" where
  "hashedMessagesOf ext h c =
     map (\<lambda>x. \<lparr>item_text = substituteParams ext (mes (h x)),
               hash = getStringHash ext (substituteParams ext (mes (h x))),
               index = indexOf c x\<rparr>)
         (filter (\<lambda>x. \<not> is_system (h x)) c)"

definition newVectorItems :: "item list \<Rightarrow> int list \<Rightarrow> item list" where
  "newVectorItems hashedMessages hashesInCollection =
     filter (\<lambda>x. \<not> includes_arr hashesInCollection (hash x)) hashedMessages"

definition deletedHashes :: "item list \<Rightarrow> int list \<Rightarrow> int list" where
  "deletedHashes hashedMessages hashesInCollection =
     filter (\<lambda>x. \<not> some hashedMessages (\<lambda>y. hash y = x)) hashesInCollection"

text \<open>
  Modelled from the spec: \<^verbatim>\<open>waitUntilCondition\<close> of \<^verbatim>\<open>utils.js\<close> (not under \<^verbatim>\<open>src/\<close>). It
  resolves at the first poll at which the condition holds and rejects when the time-out
  comes first. \<open>polls\<close> lists what the condition reads at each poll before the time-out:
  here the pairs of \<^verbatim>\<open>syncBlocked\<close> and \<^verbatim>\<open>is_send_press\<close>.
\<close>

definition waitUntilCondition :: "('p \<Rightarrow> bool) \<Rightarrow> 'p list \<Rightarrow> 'p option" where
  "waitUntilCondition condition polls = find condition polls"

text \<open>What one call of \<^verbatim>\<open>synchronizeChat\<close> is answered from outside.\<close>

record sync_io =
  polls :: "(bool \<times> bool) list"
  list_response :: "int list option"
  summaries :: summary_io
  insert_response :: "unit option"
  delete_response :: "unit option"

text \<open>The items after the optional summarization step.\<close>

definition summarized :: "externals \<Rightarrow> env \<Rightarrow> sync_io \<Rightarrow> ref list \<Rightarrow> exn + item list option" where
  "summarized ext e io c =
     (let hashedMessages = hashedMessagesOf ext (heap e) c in
      if summarize_s (settings e)
      then summarize (summaries io) hashedMessages (summary_source (settings e))
      else Inr (Some hashedMessages))"

text \<open>
  The body of the second \<^verbatim>\<open>try\<close> block of \<^verbatim>\<open>synchronizeChat\<close>: \<open>Inl\<close> is an exception
  that reaches the \<^verbatim>\<open>catch\<close>, \<open>Inr\<close> a value returned from the block.
\<close>

definition syncBody ::
  "externals \<Rightarrow> env \<Rightarrow> sync_io \<Rightarrow> int \<Rightarrow> state \<Rightarrow> (exn + int) \<times> state" where
  "syncBody ext e io batchSize s0 =
     (let s = s0\<lparr>syncBlocked := True\<rparr> in
      if \<not> truthy (chatId e) then (Inr (-1), s)
      else case chat e of
        None \<Rightarrow> (Inr (-1), s)
      | Some c \<Rightarrow>
         (case getSavedHashes e (chatId e) (list_response io) s of
            (Inl x, s1) \<Rightarrow> (Inl x, s1)
          | (Inr hashesInCollection, s1) \<Rightarrow>
             (case summarized ext e io c of
                Inl x \<Rightarrow> (Inl x, s1)
              | Inr None \<Rightarrow> (Inl TypeError, s1)
              | Inr (Some hashedMessages) \<Rightarrow>
                 (let new = newVectorItems hashedMessages hashesInCollection;
                      deleted = deletedHashes hashedMessages hashesInCollection
                  in case (if length new > 0
                           then insertVectorItems e (chatId e)
                                  (splitByChunks ext (settings e) (slice_to new batchSize))
                                  (insert_response io) s1
                           else (Inr (), s1)) of
                       (Inl x, s2) \<Rightarrow> (Inl x, s2)
                     | (Inr _, s2) \<Rightarrow>
                        (case (if length deleted > 0
                               then deleteVectorItems e (chatId e) deleted (delete_response io) s2
                               else (Inr (), s2)) of
                           (Inl x, s3) \<Rightarrow> (Inl x, s3)
                         | (Inr _, s3) \<Rightarrow> (Inr (int (length new) - batchSize), s3))))))"

text \<open>
  \<^verbatim>\<open>synchronizeChat\<close>: the two early returns, the body, the \<^verbatim>\<open>catch\<close> that turns every
  exception into \<open>-1\<close>, and the \<^verbatim>\<open>finally\<close> that clears the flag. While the call waits,
  the flag is in the hands of the other calls: after a time-out it has the value of the
  last poll.
\<close>

definition synchronizeChat ::
  "externals \<Rightarrow> env \<Rightarrow> sync_io \<Rightarrow> int \<Rightarrow> state \<Rightarrow> int \<times> state" where
  "synchronizeChat ext e io batchSize s =
     (if \<not> enabled_chats (settings e) then (-1, s)
      else case waitUntilCondition (\<lambda>(blocked, send_press). \<not> blocked \<and> \<not> send_press) (polls io) of
        None \<Rightarrow>
          (-1, s\<lparr>syncBlocked := (if polls io = [] then syncBlocked s else fst (last (polls io)))\<rparr>)
      | Some _ \<Rightarrow>
          (case syncBody ext e io batchSize s of
             (Inl error, s') \<Rightarrow> (-1, s'\<lparr>syncBlocked := False\<rparr>)
           | (Inr v, s') \<Rightarrow> (v, s'\<lparr>syncBlocked := False\<rparr>)))"

subsection \<open>The driving loop of \<^verbatim>\<open>onVectorizeAllClick\<close>\<close>

text \<open>
  One iteration reads \<^verbatim>\<open>is_send_press\<close>, calls \<^verbatim>\<open>synchronizeChat(5)\<close>, reads the length of
  the chat for the progress display (a \<^verbatim>\<open>TypeError\<close> when there is no chat) and compares
  the chat id with the one at the start. The loop is run on the list of what its
  iterations meet; \<open>Pending\<close> is a loop that wants another iteration when the list ends.
  The result lists the values that the calls returned. The progress display is left out.
\<close>

record loop_io =
  send_press :: bool
  loop_env :: env
  loop_sync :: sync_io
  chatId_after :: string

datatype loop_end = NotStarted | Finished | Thrown | Pending

fun vectorizeLoop ::
  "externals \<Rightarrow> string \<Rightarrow> loop_io list \<Rightarrow> state \<Rightarrow> loop_end \<times> int list \<times> state" where
  "vectorizeLoop ext chatId0 [] s = (Pending, [], s)"
| "vectorizeLoop ext chatId0 (i # rest) s =
     (if send_press i then (Thrown, [], s)
      else
        (case synchronizeChat ext (loop_env i) (loop_sync i) 5 s of
           (remaining, s') \<Rightarrow>
             (let finished = (remaining \<le> 0) in
              if chat (loop_env i) = None then (Thrown, [remaining], s')
              else if chatId0 \<noteq> chatId_after i then (Thrown, [remaining], s')
              else if finished then (Finished, [remaining], s')
              else (case vectorizeLoop ext chatId0 rest s' of
                      (r, trace, s'') \<Rightarrow> (r, remaining # trace, s'')))))"

definition onVectorizeAllClick ::
  "externals \<Rightarrow> env \<Rightarrow> loop_io list \<Rightarrow> state \<Rightarrow> loop_end \<times> int list \<times> state" where
  "onVectorizeAllClick ext e ios s =
     (if \<not> enabled_chats (settings e) then (NotStarted, [], s)
      else if \<not> truthy (chatId e) then (NotStarted, [], s)
      else vectorizeLoop ext (chatId e) ios s)"

text \<open>
  A call succeeds when it gets past both early returns, finds a chat and its body ends
  without an exception, so that it reaches the last \<^verbatim>\<open>return\<close> of the block.
\<close>

definition succeeds :: "externals \<Rightarrow> env \<Rightarrow> sync_io \<Rightarrow> int \<Rightarrow> state \<Rightarrow> bool" where
  "succeeds ext e io batchSize s =
     (enabled_chats (settings e) \<and>
      waitUntilCondition (\<lambda>(blocked, send_press). \<not> blocked \<and> \<not> send_press) (polls io) \<noteq> None \<and>
      truthy (chatId e) \<and> chat e \<noteq> None \<and>
      (case fst (syncBody ext e io batchSize s) of Inl _ \<Rightarrow> False | Inr _ \<Rightarrow> True))"

text \<open>The delta (\<open>toInsert\<close>, \<open>toDelete\<close>) of a call that gets to compute one.\<close>

definition delta :: "externals \<Rightarrow> env \<Rightarrow> sync_io \<Rightarrow> (item list \<times> int list) option" where
  "delta ext e io =
     (case chat e of
        None \<Rightarrow> None
      | Some c \<Rightarrow>
          (case list_response io of
             None \<Rightarrow> None
           | Some remote \<Rightarrow>
               (case summarized ext e io c of
                  Inr (Some hashedMessages) \<Rightarrow>
                    Some (newVectorItems hashedMessages remote, deletedHashes hashedMessages remote)
                | _ \<Rightarrow> None)))"

section \<open>Retrieval injector\<close>

subsection \<open>Prompt slots and strings\<close>

definition EXTENSION_PROMPT_TAG :: string where
  "EXTENSION_PROMPT_TAG = ''3_vectors''"

definition EXTENSION_PROMPT_TAG_DB :: string where
  "EXTENSION_PROMPT_TAG_DB = ''4_vectors_data_bank''"

definition setExtensionPrompt ::
  "string \<Rightarrow> string \<Rightarrow> int \<Rightarrow> int \<Rightarrow> bool \<Rightarrow> int option \<Rightarrow> state \<Rightarrow> state" where
  "setExtensionPrompt tag value pos d scan role s =
     s\<lparr>prompts := (prompts s)(tag \<mapsto>
        \<lparr>prompt_text = value, prompt_position = pos, prompt_depth = d, prompt_scan = scan,
         prompt_role = role\<rparr>)\<rparr>"

text \<open>
  \<^verbatim>\<open>str.trim()\<close> on the characters of \<open>string\<close>: white space and line terminators are
  dropped at both ends.
\<close>

definition is_space :: "char \<Rightarrow> bool" where
  "is_space c = (c \<in> {CHR 0x09, CHR 0x0A, CHR 0x0B, CHR 0x0C, CHR 0x0D, CHR 0x20, CHR 0xA0})"

definition trim :: "string \<Rightarrow> string" where
  "trim s = rev (dropWhile is_space (rev (dropWhile is_space s)))"

definition newline :: string where
  "newline = [CHR 0x0A]"

subsection \<open>Query text\<close>

text \<open>
  The loop of \<^verbatim>\<open>getQueryText\<close> over the reversed messages: a non-empty text is appended
  and counted, and the loop ends when the count equals \<^verbatim>\<open>settings.query\<close>.
\<close>

fun queryLoop :: "settings \<Rightarrow> string list \<Rightarrow> string \<Rightarrow> int \<Rightarrow> string" where
  "queryLoop st [] queryText i = queryText"
| "queryLoop st (message # rest) queryText i =
     (let queryText' = (if truthy message then queryText @ message @ newline else queryText);
          i' = (if truthy message then i + 1 else i)
      in if i' = query st then queryText' else queryLoop st rest queryText' i')"

definition getQueryText ::
  "externals \<Rightarrow> settings \<Rightarrow> heap \<Rightarrow> summary_io \<Rightarrow> ref list \<Rightarrow> exn + string" where
  "getQueryText ext st hp sio c =
     (let hashedMessages = map (\<lambda>x. \<lparr>item_text = substituteParams ext (mes (hp x))\<rparr>) c in
      case (if summarize_s st \<and> summarize_sent st
            then summarize sio hashedMessages (summary_source st)
            else Inr (Some hashedMessages)) of
        Inl x \<Rightarrow> Inl x
      | Inr None \<Rightarrow> Inl TypeError
      | Inr (Some hashedMessages') \<Rightarrow>
          Inr (trim (collapseNewlines ext
                 (queryLoop st (rev (map item_text hashedMessages')) [] 0))))"

subsection \<open>Rearrangement of the chat\<close>

text \<open>The hash of a message: \<^verbatim>\<open>getStringHash(substituteParams(message.mes))\<close>.\<close>

definition messageHash :: "externals \<Rightarrow> heap \<Rightarrow> ref \<Rightarrow> int" where
  "messageHash ext hp message = getStringHash ext (substituteParams ext (mes (hp message)))"

text \<open>
  The first loop over the chat: a message that is not retained, has a text, whose hash is
  among the query hashes and was not inserted before is pushed to \<^verbatim>\<open>queriedMessages\<close>.
\<close>

fun collectQueried ::
  "externals \<Rightarrow> heap \<Rightarrow> int list \<Rightarrow> ref list \<Rightarrow> ref list \<Rightarrow> ref list \<times> int set
     \<Rightarrow> ref list \<times> int set" where
  "collectQueried ext hp queryHashes retainMessages [] acc = acc"
| "collectQueried ext hp queryHashes retainMessages (message # rest)
     (queriedMessages, insertedHashes) =
     (if includes_arr retainMessages message \<or> \<not> truthy (mes (hp message))
      then collectQueried ext hp queryHashes retainMessages rest (queriedMessages, insertedHashes)
      else
        (let hsh = messageHash ext hp message in
         if includes_arr queryHashes hsh \<and> hsh \<notin> insertedHashes
         then collectQueried ext hp queryHashes retainMessages rest
                (queriedMessages @ [message], insert hsh insertedHashes)
         else collectQueried ext hp queryHashes retainMessages rest
                (queriedMessages, insertedHashes)))"

text \<open>
  The position of a message's hash among the query hashes, and the sort with the
  comparator \<^verbatim>\<open>(a, b) => queryHashes.indexOf(hash(b)) - queryHashes.indexOf(hash(a))\<close>: a
  stable sort by descending position.
\<close>

definition queryRank :: "externals \<Rightarrow> heap \<Rightarrow> int list \<Rightarrow> ref \<Rightarrow> int" where
  "queryRank ext hp queryHashes m = indexOf queryHashes (messageHash ext hp m)"

definition queriedMessagesOf ::
  "externals \<Rightarrow> heap \<Rightarrow> settings \<Rightarrow> int list \<Rightarrow> ref list \<Rightarrow> ref list" where
  "queriedMessagesOf ext hp st queryHashes c =
     (let retainMessages = slice_from c (- protect st);
          queriedMessages = fst (collectQueried ext hp queryHashes retainMessages c ([], {}))
      in sort_key (\<lambda>m. - queryRank ext hp queryHashes m) queriedMessages)"

text \<open>
  The second loop, \<^verbatim>\<open>for (const message of chat)\<close> with \<^verbatim>\<open>chat.splice(chat.indexOf(message), 1)\<close>
  in its body: the iterator reads position \<open>i\<close> of the array as it is at that moment and
  moves on to \<open>i + 1\<close>.
\<close>

function removeQueried :: "ref list \<Rightarrow> ref list \<Rightarrow> nat \<Rightarrow> ref list" where
  "removeQueried queriedMessages c i =
     (if i < length c then
        (let message = c ! i in
         if includes_arr queriedMessages message
         then removeQueried queriedMessages (splice1 c (indexOf c message)) (Suc i)
         else removeQueried queriedMessages c (Suc i))
      else c)"
  by pat_completeness auto
termination
  by (relation "measure (\<lambda>(q, c, i). length c - i)") (auto simp: splice1_def Let_def)

declare removeQueried.simps [simp del]

definition queriedText :: "externals \<Rightarrow> heap \<Rightarrow> ref list \<Rightarrow> string" where
  "queriedText ext hp queriedMessages =
     join (map (\<lambda>x. trim (collapseNewlines ext (name (hp x) @ '': '' @ mes (hp x))))
               queriedMessages) (newline @ newline)"

definition getPromptText :: "externals \<Rightarrow> heap \<Rightarrow> settings \<Rightarrow> ref list \<Rightarrow> string" where
  "getPromptText ext hp st queriedMessages =
     substituteParams ext (replaceText ext (template st) (queriedText ext hp queriedMessages))"

text \<open>
  The part of \<^verbatim>\<open>rearrangeChat\<close> after the query: from the query result to the new chat
  array and the prompt slot.
\<close>

definition injectQueried ::
  "externals \<Rightarrow> heap \<Rightarrow> settings \<Rightarrow> query_result \<Rightarrow> ref list \<Rightarrow> state \<Rightarrow> ref list \<times> state" where
  "injectQueried ext hp st queryResults c s =
     (let queryHashes = filter_onlyUnique (hashes queryResults);
          queriedMessages = queriedMessagesOf ext hp st queryHashes c;
          c' = removeQueried queriedMessages c 0
      in if length queriedMessages = 0 then (c', s)
         else (c', setExtensionPrompt EXTENSION_PROMPT_TAG
                     (getPromptText ext hp st queriedMessages)
                     (position st) (depth st) (include_wi st) None s))"

text \<open>
  What a call of \<^verbatim>\<open>rearrangeChat\<close> is answered from outside. \<^verbatim>\<open>processFiles\<close> and
  \<^verbatim>\<open>activateWorldInfo\<close> are not embedded: the first catches its own errors and leaves
  behind message texts and a state, the second leaves a state and may throw. Neither
  touches the chat array.
\<close>

record rearrange_io =
  processFiles_result :: "heap \<Rightarrow> state \<Rightarrow> heap \<times> state"
  activateWorldInfo_result :: "state \<Rightarrow> (exn + unit) \<times> state"
  query_summaries :: summary_io
  query_response :: "query_result option"

text \<open>
  The chat-memory part of \<^verbatim>\<open>rearrangeChat(chat)\<close>, from the check of
  \<^verbatim>\<open>settings.enabled_chats\<close> on: the chat array (\<open>None\<close> when the argument is not an array)
  and the state after it. An exception ends in the \<^verbatim>\<open>catch\<close>, which leaves the chat as it
  is at that point.
\<close>

definition rearrangeMemory ::
  "externals \<Rightarrow> env \<Rightarrow> heap \<Rightarrow> rearrange_io \<Rightarrow> ref list option \<Rightarrow> state
     \<Rightarrow> ref list option \<times> state" where
  "rearrangeMemory ext e hp io c0 s =
     (let st = settings e in
      if \<not> enabled_chats st then (c0, s)
      else if \<not> truthy (chatId e) then (c0, s)
      else case c0 of
        None \<Rightarrow> (c0, s)
      | Some c \<Rightarrow>
         if int (length c) < protect st then (c0, s)
         else case getQueryText ext st hp (query_summaries io) c of
           Inl x \<Rightarrow> (c0, s)
         | Inr queryText \<Rightarrow>
            if length queryText = 0 then (c0, s)
            else case queryCollection e (chatId e) queryText (insert_s st)
                        (query_response io) s of
              (Inl x, s') \<Rightarrow> (c0, s')
            | (Inr queryResults, s') \<Rightarrow>
               (case injectQueried ext hp st queryResults c s' of
                  (c', s'') \<Rightarrow> (Some c', s'')))"

text \<open>
  \<^verbatim>\<open>rearrangeChat(chat)\<close>: both prompt slots are cleared, the files and the world info are
  processed when they are enabled, and the chat-memory part follows unless the world info
  threw. The result is the chat array, the heap and the state after the call.
\<close>

definition rearrangeChat ::
  "externals \<Rightarrow> env \<Rightarrow> rearrange_io \<Rightarrow> ref list option \<Rightarrow> state
     \<Rightarrow> ref list option \<times> heap \<times> state" where
  "rearrangeChat ext e io c0 s0 =
     (let st = settings e;
          s1 = setExtensionPrompt EXTENSION_PROMPT_TAG [] (position st) (depth st)
                 (include_wi st) None s0;
          s2 = setExtensionPrompt EXTENSION_PROMPT_TAG_DB [] (file_position_db st)
                 (file_depth_db st) (include_wi st) (Some (file_depth_role_db st)) s1;
          files = (if enabled_files st then processFiles_result io (heap e) s2
                   else (heap e, s2));
          wi = (if enabled_world_info st then activateWorldInfo_result io (snd files)
                else (Inr (), snd files))
      in case fst wi of
           Inl x \<Rightarrow> (c0, fst files, snd wi)
         | Inr _ \<Rightarrow>
            (case rearrangeMemory ext e (fst files) io c0 (snd wi) of
               (c', s') \<Rightarrow> (c', fst files, s')))"

subsection \<open>Data Bank chunks\<close>

text \<open>
  The texts of one collection: entries with a text, sorted by \<^verbatim>\<open>index\<close>, their texts,
  deduplicated; no texts when the collection has no metadata.
\<close>

definition collectionTexts :: "item list option \<Rightarrow> string list" where
  "collectionTexts md =
     (case md of
        None \<Rightarrow> []
      | Some m \<Rightarrow>
          filter_onlyUnique
            (map item_text (sort_key index (filter (\<lambda>x. truthy (item_text x)) m))))"

fun dataBankText :: "multi_result \<Rightarrow> string \<Rightarrow> string" where
  "dataBankText [] textResult = textResult"
| "dataBankText ((collectionId, md) # rest) textResult =
     dataBankText rest (textResult @ join (collectionTexts md) newline @ newline @ newline)"

definition injectDataBankChunks ::
  "externals \<Rightarrow> env \<Rightarrow> string \<Rightarrow> string list \<Rightarrow> multi_result option \<Rightarrow> state \<Rightarrow> state" where
  "injectDataBankChunks ext e queryText collectionIds response s =
     (let st = settings e in
      case queryMultipleCollections e collectionIds queryText (chunk_count_db st) response s of
        (Inl x, s1) \<Rightarrow> s1
      | (Inr queryResults, s1) \<Rightarrow>
          (let textResult = dataBankText queryResults [] in
           if \<not> truthy textResult then s1
           else setExtensionPrompt EXTENSION_PROMPT_TAG_DB
                  (substituteParams ext (replaceText ext (file_template_db st) textResult))
                  (file_position_db st) (file_depth_db st) (include_wi st)
                  (Some (file_depth_role_db st)) s1))"

section \<open>Chunker\<close>

text \<open>
  Modelled from the spec: \<^verbatim>\<open>splitRecursive\<close> of \<^verbatim>\<open>utils.js\<close> (not under \<^verbatim>\<open>src/\<close>), the
  chunker of section 4.2. A size that is not positive returns the text whole. Otherwise
  the text is cut into pieces of at most \<open>maxSize\<close> characters, in order, whose
  concatenation is the text; a piece ends after the last white space of its window when
  there is one (a natural boundary) and is a hard cut of \<open>maxSize\<close> characters otherwise.
\<close>

definition cutPoint :: "string \<Rightarrow> nat \<Rightarrow> nat" where
  "cutPoint t n =
     (let k = length (dropWhile (\<lambda>c. \<not> is_space c) (rev (take n t)))
      in if k = 0 then n else k)"

function chunk :: "string \<Rightarrow> nat \<Rightarrow> string list" where
  "chunk t n =
     (if n = 0 \<or> length t \<le> n then [t]
      else take (cutPoint t n) t # chunk (drop (cutPoint t n) t) n)"
  by pat_completeness auto

lemma cutPoint_bounds: "0 < n \<Longrightarrow> 0 < cutPoint t n \<and> cutPoint t n \<le> n"
proof -
  assume n: "0 < n"
  have "length (dropWhile (\<lambda>c. \<not> is_space c) (rev (take n t))) \<le> length (rev (take n t))"
    by (rule length_dropWhile_le)
  then show ?thesis using n by (auto simp: cutPoint_def Let_def)
qed

termination chunk
proof (relation "measure (\<lambda>(t, n). length t)")
  show "wf (measure (\<lambda>(t, n). length t))" by simp
next
  fix t :: string and n :: nat
  assume "\<not> (n = 0 \<or> length t \<le> n)"
  then have "0 < n" and "n < length t" by auto
  with cutPoint_bounds [of n t] have "length t - cutPoint t n < length t"
    by linarith
  then show "((drop (cutPoint t n) t, n), (t, n)) \<in> measure (\<lambda>(t, n). length t)"
    by simp
qed

declare chunk.simps [simp del]

definition splitRecursive_spec :: "string \<Rightarrow> int \<Rightarrow> string list" where
  "splitRecursive_spec t maxSize = (if maxSize \<le> 0 then [t] else chunk t (nat maxSize))"

section \<open>Concrete inputs\<close>

text \<open>
  The default settings of the extension with chat vectorization switched on, a chat of four
  messages, hashes that are the lengths of the texts, a template replacement that puts the
  text in the place of the first \<^verbatim>\<open>{{text}}\<close>, and a server that answers every request.
\<close>

fun replace_first :: "string \<Rightarrow> string \<Rightarrow> string \<Rightarrow> string" where
  "replace_first pat x [] = []"
| "replace_first pat x (c # cs) =
     (if take (length pat) (c # cs) = pat then x @ drop (length pat) (c # cs)
      else c # replace_first pat x cs)"

definition ex_ext :: externals where
  "ex_ext = \<lparr>substituteParams = (\<lambda>s. s), calculateHash = (\<lambda>s. int (length s)),
             collapseNewlines = (\<lambda>s. s), splitRecursive = (\<lambda>t n. [t]),
             replaceText = (\<lambda>t x. replace_first ''{{text}}'' x t)\<rparr>"

definition ex_settings :: settings where
  "ex_settings = \<lparr>source = ''transformers'', include_wi = False,
     ollama_model = ''mxbai-embed-large'', summarize_s = False, summarize_sent = False,
     summary_source = ''main'', enabled_chats = True, template = ''Past events: {{text}}'',
     depth = 2, position = 0, protect = 5, insert_s = 3, query = 2, message_chunk_size = 400,
     enabled_files = False, enabled_world_info = False, chunk_count_db = 5,
     file_template_db = ''Related information: {{text}}'', file_position_db = 0,
     file_depth_db = 4, file_depth_role_db = 0\<rparr>"

definition ex_heap :: heap where
  "ex_heap r =
     (if r = 0 then \<lparr>name = ''Ann'', mes = ''a'', is_system = False\<rparr>
      else if r = 1 then \<lparr>name = ''Bob'', mes = ''bb'', is_system = False\<rparr>
      else if r = 2 then \<lparr>name = ''Ann'', mes = ''ccc'', is_system = False\<rparr>
      else if r = 3 then \<lparr>name = ''Bob'', mes = ''dddd'', is_system = False\<rparr>
      else if r = 4 then \<lparr>name = ''Ann'', mes = ''eeeee'', is_system = False\<rparr>
      else \<lparr>name = ''Bob'', mes = ''ffffff'', is_system = False\<rparr>)"

definition ex_env :: env where
  "ex_env = \<lparr>settings = ex_settings, secret_state = (\<lambda>k. False), server_urls = (\<lambda>t. []),
             modules = [], chatId = ''chat1'', chat = Some [0, 1, 2, 3], heap = ex_heap\<rparr>"

definition ex_io :: sync_io where
  "ex_io = \<lparr>polls = [(False, False)], list_response = Some [2, 7],
            summaries = \<lparr>generateRaw = Some, extras_summary = Some\<rparr>,
            insert_response = Some (), delete_response = Some ()\<rparr>"

definition ex_state :: state where
  "ex_state = \<lparr>syncBlocked = False, requests = [], prompts = Map.empty\<rparr>"

text \<open>A call that meets a held flag at its only poll, and a server that holds nothing yet.\<close>

definition ex_io_blocked :: sync_io where
  "ex_io_blocked = ex_io\<lparr>polls := [(True, False)]\<rparr>"

definition ex_io_empty :: sync_io where
  "ex_io_empty = ex_io\<lparr>list_response := Some []\<rparr>"

definition ex_last :: loop_io where
  "ex_last = \<lparr>send_press = False, loop_env = ex_env, loop_sync = ex_io, chatId_after = ''chat1''\<rparr>"

definition ex_more :: loop_io where
  "ex_more = \<lparr>send_press = False, loop_env = ex_env\<lparr>chat := Some [0, 1, 2, 3, 4, 5]\<rparr>,
              loop_sync = ex_io_empty, chatId_after = ''chat1''\<rparr>"

text \<open>
  A protected tail of one message, and a query answered with the hashes of the third and
  the first message, the third being the most relevant.
\<close>

definition ex_env1 :: env where
  "ex_env1 = ex_env\<lparr>settings := ex_settings\<lparr>protect := 1\<rparr>\<rparr>"

definition ex_result :: query_result where
  "ex_result = \<lparr>hashes = [3, 1, 3], metadata = []\<rparr>"

definition ex_rio :: rearrange_io where
  "ex_rio = \<lparr>processFiles_result = (\<lambda>hp s. (hp, s)),
             activateWorldInfo_result = (\<lambda>s. (Inr (), s)),
             query_summaries = \<lparr>generateRaw = Some, extras_summary = Some\<rparr>,
             query_response = Some ex_result\<rparr>"

text \<open>A splitter that cuts a text in two, and two items.\<close>

definition ex_ext_halves :: externals where
  "ex_ext_halves = ex_ext\<lparr>splitRecursive := (\<lambda>t n. [take (nat n) t, drop (nat n) t])\<rparr>"

definition ex_env_small :: env where
  "ex_env_small = ex_env\<lparr>settings := ex_settings\<lparr>message_chunk_size := 2\<rparr>\<rparr>"

definition ex_item1 :: item where
  "ex_item1 = \<lparr>item_text = ''abcdef'', hash = 1, index = 0\<rparr>"

definition ex_item2 :: item where
  "ex_item2 = \<lparr>item_text = ''gh'', hash = 2, index = 1\<rparr>"

text \<open>Sources that need a key, a server URL and a module, with none of them configured.\<close>

definition ex_env_openai :: env where
  "ex_env_openai = ex_env\<lparr>settings := ex_settings\<lparr>source := ''openai''\<rparr>\<rparr>"

definition ex_env_ollama :: env where
  "ex_env_ollama = ex_env\<lparr>settings := ex_settings\<lparr>source := ''ollama''\<rparr>\<rparr>"

definition ex_env_extras :: env where
  "ex_env_extras = ex_env\<lparr>settings := ex_settings\<lparr>source := ''extras''\<rparr>\<rparr>"

text \<open>
  A result for two collections: the first has a text twice, an entry without text and
  indices out of order; the second has a text that the first has too.
\<close>

definition ex_multi :: multi_result where
  "ex_multi =
     [(''file_1'', Some [\<lparr>item_text = ''b'', hash = 1, index = 2\<rparr>,
                         \<lparr>item_text = ''a'', hash = 2, index = 1\<rparr>,
                         \<lparr>item_text = ''b'', hash = 1, index = 0\<rparr>,
                         \<lparr>item_text = [], hash = 0, index = 3\<rparr>]),
      (''file_2'', Some [\<lparr>item_text = ''a'', hash = 2, index = 0\<rparr>])]"

text \<open>The externals with the chunker of the specification.\<close>

definition ex_ext_spec :: externals where
  "ex_ext_spec = ex_ext\<lparr>splitRecursive := splitRecursive_spec\<rparr>"

section \<open>Properties of the differ and the synchronizer\<close>

lemmas ex_defs = ex_ext_def ex_settings_def ex_heap_def ex_env_def ex_io_def ex_state_def
  ex_io_blocked_def ex_io_empty_def ex_last_def ex_more_def ex_ext_halves_def ex_item1_def
  ex_item2_def ex_env_small_def ex_env1_def ex_result_def ex_rio_def ex_env_openai_def
  ex_env_ollama_def ex_env_extras_def ex_multi_def ex_ext_spec_def

lemmas client_defs = throwIfSourceInvalid_def insertVectorItems_def getSavedHashes_def
  deleteVectorItems_def purgeVectorIndex_def queryCollection_def queryMultipleCollections_def
  send_def truthy_def required_secret_def

lemmas retrieval_defs = rearrangeChat_def rearrangeMemory_def injectQueried_def
  queriedMessagesOf_def queryRank_def messageHash_def getQueryText_def queryCollection_def
  getPromptText_def queriedText_def setExtensionPrompt_def slice_from_def relativeIndex_def
  filter_onlyUnique_def trim_def is_space_def newline_def truthy_def getStringHash_def
  send_def splice1_def EXTENSION_PROMPT_TAG_def EXTENSION_PROMPT_TAG_DB_def collectionTexts_def
  injectDataBankChunks_def queryMultipleCollections_def

lemmas sync_defs = synchronizeChat_def syncBody_def getSavedHashes_def summarized_def
  hashedMessagesOf_def newVectorItems_def deletedHashes_def insertVectorItems_def
  deleteVectorItems_def throwIfSourceInvalid_def splitByChunks_def slice_to_def
  relativeIndex_def send_def waitUntilCondition_def truthy_def getStringHash_def
  succeeds_def delta_def

lemma getStringHash_cached_value:
  "cache_consistent ext hashCache \<Longrightarrow>
     fst (getStringHash_cached ext hashCache str) = getStringHash ext str \<and>
     cache_consistent ext (snd (getStringHash_cached ext hashCache str))"
  by (auto simp: getStringHash_cached_def getStringHash_def cache_consistent_def Let_def
           split: option.splits)

lemma includes_arr_set: "includes_arr xs x = (x \<in> set xs)"
  by (induction xs) auto

lemma some_set: "some xs p = (\<exists>y \<in> set xs. p y)"
  by (induction xs) auto

lemma pushChunks_append:
  "pushChunks item chunks acc = acc @ map (\<lambda>chunk. item\<lparr>item_text := chunk\<rparr>) chunks"
  by (induction chunks arbitrary: acc) auto

lemma chunkLoop_append:
  "chunkLoop ext n items acc =
     acc @ concat (map (\<lambda>item. map (\<lambda>chunk. item\<lparr>item_text := chunk\<rparr>)
                                   (splitRecursive ext (item_text item) n)) items)"
  by (induction items arbitrary: acc) (auto simp: pushChunks_append)

lemma newVectorItems_filter:
  "newVectorItems localItems remoteHashes =
     filter (\<lambda>x. hash x \<notin> set remoteHashes) localItems"
  by (simp add: newVectorItems_def includes_arr_set)

lemma deletedHashes_filter:
  "deletedHashes localItems remoteHashes =
     filter (\<lambda>h. h \<notin> hash ` set localItems) remoteHashes"
  by (auto simp add: deletedHashes_def some_set intro!: filter_cong)

subsection \<open>Return value and driving loop\<close>

lemma syncBody_value:
  assumes "truthy (chatId e)" and "chat e = Some c" and "fst (syncBody ext e io b s) = Inr v"
  shows "\<exists>remote hashedMessages. list_response io = Some remote \<and>
           summarized ext e io c = Inr (Some hashedMessages) \<and>
           v = int (length (newVectorItems hashedMessages remote)) - b"
  using assms
  by (auto simp: syncBody_def getSavedHashes_def Let_def
           split: option.splits sum.splits prod.splits if_splits)

lemma synchronizeChat_succeeds:
  assumes "succeeds ext e io b s"
  shows "\<exists>toInsert toDelete. delta ext e io = Some (toInsert, toDelete) \<and>
           fst (synchronizeChat ext e io b s) = int (length toInsert) - b"
proof -
  from assms obtain c v where c: "chat e = Some c" and v: "fst (syncBody ext e io b s) = Inr v"
    and t: "truthy (chatId e)" and en: "enabled_chats (settings e)"
    and w: "waitUntilCondition (\<lambda>(blocked, send_press). \<not> blocked \<and> \<not> send_press) (polls io)
              \<noteq> None"
    by (auto simp: succeeds_def split: sum.splits)
  from syncBody_value [OF t c v] obtain remote hm where
    r: "list_response io = Some remote" and h: "summarized ext e io c = Inr (Some hm)"
    and veq: "v = int (length (newVectorItems hm remote)) - b" by blast
  have "fst (synchronizeChat ext e io b s) = v"
    using en w v by (auto simp: synchronizeChat_def split: option.splits sum.splits prod.splits)
  moreover have "delta ext e io = Some (newVectorItems hm remote, deletedHashes hm remote)"
    using c r h by (simp add: delta_def)
  ultimately show ?thesis using veq by simp
qed

lemma succeeds_requests:
  assumes "succeeds ext e io b s" and "delta ext e io = Some (toInsert, toDelete)"
  shows "requests (snd (synchronizeChat ext e io b s)) =
           requests s @ [ListReq (chatId e) (source (settings e))] @
           (if toInsert = [] then []
            else [InsertReq (chatId e) (splitByChunks ext (settings e) (slice_to toInsert b))
                    (source (settings e))]) @
           (if toDelete = [] then [] else [DeleteReq (chatId e) toDelete (source (settings e))])"
  using assms
  by (auto simp: succeeds_def delta_def synchronizeChat_def syncBody_def getSavedHashes_def
        insertVectorItems_def deleteVectorItems_def send_def Let_def
        split: option.splits sum.splits prod.splits if_splits)

lemma slice_to_all: "int (length xs) \<le> b \<Longrightarrow> slice_to xs b = xs"
  by (simp add: slice_to_def relativeIndex_def)

text \<open>
  Claim C1. A call of \<^verbatim>\<open>synchronizeChat\<close> that succeeds works on the items of the chat
  (after the optional summarization) and the hashes that the server listed. Its delta is:
  \<open>toInsert\<close>, the items whose hash is not among the listed hashes, in the order of the
  items; and \<open>toDelete\<close>, the listed hashes that no item has, in the order of the listing.
  An item whose hash is listed is in neither. The call sends the list request, then the
  insert request with the chunks of the first batch of \<open>toInsert\<close> (when there are items to
  insert; the items themselves when the batch holds them all and chunking is off), then
  the delete request with all of \<open>toDelete\<close> (when there are hashes to delete), and returns
  the length of \<open>toInsert\<close> minus the batch size.
\<close>

theorem synchronizeChat_delta:
  assumes "succeeds ext e io b s"
  shows "\<exists>c remote items toInsert toDelete.
           chat e = Some c \<and> list_response io = Some remote \<and>
           summarized ext e io c = Inr (Some items) \<and>
           (\<not> summarize_s (settings e) \<longrightarrow> items = hashedMessagesOf ext (heap e) c) \<and>
           toInsert = filter (\<lambda>x. hash x \<notin> set remote) items \<and>
           toDelete = filter (\<lambda>h. h \<notin> hash ` set items) remote \<and>
           subseq toInsert items \<and> subseq toDelete remote \<and>
           (\<forall>x \<in> set items. hash x \<in> set remote \<longrightarrow>
              x \<notin> set toInsert \<and> hash x \<notin> set toDelete) \<and>
           requests (snd (synchronizeChat ext e io b s)) =
             requests s @ [ListReq (chatId e) (source (settings e))] @
             (if toInsert = [] then []
              else [InsertReq (chatId e) (splitByChunks ext (settings e) (slice_to toInsert b))
                      (source (settings e))]) @
             (if toDelete = [] then []
              else [DeleteReq (chatId e) toDelete (source (settings e))]) \<and>
           fst (synchronizeChat ext e io b s) = int (length toInsert) - b \<and>
           (message_chunk_size (settings e) \<le> 0 \<and> int (length toInsert) \<le> b \<longrightarrow>
              splitByChunks ext (settings e) (slice_to toInsert b) = toInsert)"
proof -
  from synchronizeChat_succeeds [OF assms] obtain toInsert toDelete where
    d: "delta ext e io = Some (toInsert, toDelete)" and
    v: "fst (synchronizeChat ext e io b s) = int (length toInsert) - b" by blast
  from d obtain c remote items where c: "chat e = Some c" and r: "list_response io = Some remote"
    and i: "summarized ext e io c = Inr (Some items)"
    and ti: "toInsert = filter (\<lambda>x. hash x \<notin> set remote) items"
    and td: "toDelete = filter (\<lambda>h. h \<notin> hash ` set items) remote"
    by (auto simp: delta_def newVectorItems_filter deletedHashes_filter
             split: option.splits sum.splits)
  from i have h: "\<not> summarize_s (settings e) \<longrightarrow> items = hashedMessagesOf ext (heap e) c"
    by (auto simp: summarized_def Let_def)
  note q = succeeds_requests [OF assms d]
  have sub: "subseq toInsert items \<and> subseq toDelete remote" unfolding ti td by simp
  have nei: "\<forall>x \<in> set items. hash x \<in> set remote \<longrightarrow>
              x \<notin> set toInsert \<and> hash x \<notin> set toDelete"
    unfolding ti td by simp
  have whole: "message_chunk_size (settings e) \<le> 0 \<and> int (length toInsert) \<le> b \<longrightarrow>
              splitByChunks ext (settings e) (slice_to toInsert b) = toInsert"
    by (simp add: splitByChunks_def slice_to_all)
  from c r i h ti td sub nei q v whole show ?thesis by blast
qed

theorem synchronizeChat_delta_witness:
  "succeeds ex_ext ex_env ex_io 5 ex_state \<and>
   list_response ex_io = Some [2, 7] \<and>
   hashedMessagesOf ex_ext (heap ex_env) [0, 1, 2, 3] =
     [\<lparr>item_text = ''a'', hash = 1, index = 0\<rparr>, \<lparr>item_text = ''bb'', hash = 2, index = 1\<rparr>,
      \<lparr>item_text = ''ccc'', hash = 3, index = 2\<rparr>, \<lparr>item_text = ''dddd'', hash = 4, index = 3\<rparr>] \<and>
   requests (snd (synchronizeChat ex_ext ex_env ex_io 5 ex_state)) =
     [ListReq ''chat1'' ''transformers'',
      InsertReq ''chat1''
        [\<lparr>item_text = ''a'', hash = 1, index = 0\<rparr>, \<lparr>item_text = ''ccc'', hash = 3, index = 2\<rparr>,
         \<lparr>item_text = ''dddd'', hash = 4, index = 3\<rparr>] ''transformers'',
      DeleteReq ''chat1'' [7] ''transformers''] \<and>
   fst (synchronizeChat ex_ext ex_env ex_io 5 ex_state) = 3 - 5"
  using synchronizeChat_delta [of ex_ext ex_env ex_io 5 ex_state]
  by (simp add: ex_defs sync_defs)

lemma loop_stops:
  assumes "\<not> send_press i" and "fst (synchronizeChat ext (loop_env i) (loop_sync i) 5 s) \<le> 0"
  shows "fst (snd (vectorizeLoop ext cid (i # rest) s)) =
           [fst (synchronizeChat ext (loop_env i) (loop_sync i) 5 s)] \<and>
         fst (vectorizeLoop ext cid (i # rest) s) \<in> {Finished, Thrown} \<and>
         snd (snd (vectorizeLoop ext cid (i # rest) s)) =
           snd (synchronizeChat ext (loop_env i) (loop_sync i) 5 s) \<and>
         (chat (loop_env i) \<noteq> None \<and> chatId_after i = cid \<longrightarrow>
            fst (vectorizeLoop ext cid (i # rest) s) = Finished)"
  using assms by (auto simp: Let_def split: prod.splits)

lemma loop_continues:
  assumes "\<not> send_press i" and "0 < fst (synchronizeChat ext (loop_env i) (loop_sync i) 5 s)"
    and "chat (loop_env i) \<noteq> None" and "chatId_after i = cid"
  shows "vectorizeLoop ext cid (i # rest) s =
          (case vectorizeLoop ext cid rest
                  (snd (synchronizeChat ext (loop_env i) (loop_sync i) 5 s)) of
             (r, trace, s'') \<Rightarrow>
               (r, fst (synchronizeChat ext (loop_env i) (loop_sync i) 5 s) # trace, s''))"
  using assms by (auto simp: Let_def split: prod.splits)

text \<open>
  Claim C2. A successful call with batch size \<open>b\<close> returns the number of items to insert
  minus \<open>b\<close>. An iteration of the driving loop whose call returns a value that is at most
  \<open>0\<close> is the last one: the loop makes no further call, whatever would follow. After a
  positive value (with the chat still there and its id unchanged) the loop goes on with
  the next iteration.
\<close>

theorem synchronizeChat_remaining:
  "(succeeds ext e io b s \<longrightarrow>
      (\<exists>toInsert toDelete. delta ext e io = Some (toInsert, toDelete) \<and>
         fst (synchronizeChat ext e io b s) = int (length toInsert) - b)) \<and>
   (\<not> send_press i \<and> fst (synchronizeChat ext (loop_env i) (loop_sync i) 5 s1) \<le> 0 \<longrightarrow>
      fst (snd (vectorizeLoop ext cid (i # rest) s1)) =
        [fst (synchronizeChat ext (loop_env i) (loop_sync i) 5 s1)] \<and>
      fst (vectorizeLoop ext cid (i # rest) s1) \<in> {Finished, Thrown} \<and>
      snd (snd (vectorizeLoop ext cid (i # rest) s1)) =
        snd (synchronizeChat ext (loop_env i) (loop_sync i) 5 s1) \<and>
      (chat (loop_env i) \<noteq> None \<and> chatId_after i = cid \<longrightarrow>
         fst (vectorizeLoop ext cid (i # rest) s1) = Finished)) \<and>
   (\<not> send_press j \<and> 0 < fst (synchronizeChat ext (loop_env j) (loop_sync j) 5 s2) \<and>
    chat (loop_env j) \<noteq> None \<and> chatId_after j = cid \<longrightarrow>
      vectorizeLoop ext cid (j # rest) s2 =
        (case vectorizeLoop ext cid rest
                (snd (synchronizeChat ext (loop_env j) (loop_sync j) 5 s2)) of
           (r, trace, s'') \<Rightarrow>
             (r, fst (synchronizeChat ext (loop_env j) (loop_sync j) 5 s2) # trace, s'')))"
  using synchronizeChat_succeeds [of ext e io b s] loop_stops [of i ext s1 cid rest]
    loop_continues [of j ext s2 cid rest]
  by blast

theorem synchronizeChat_remaining_witness:
  "succeeds ex_ext ex_env ex_io 5 ex_state \<and>
   delta ex_ext ex_env ex_io =
     Some ([\<lparr>item_text = ''a'', hash = 1, index = 0\<rparr>,
            \<lparr>item_text = ''ccc'', hash = 3, index = 2\<rparr>,
            \<lparr>item_text = ''dddd'', hash = 4, index = 3\<rparr>], [7]) \<and>
   fst (synchronizeChat ex_ext ex_env ex_io 5 ex_state) = 3 - 5 \<and>
   \<not> send_press ex_last \<and>
   fst (synchronizeChat ex_ext (loop_env ex_last) (loop_sync ex_last) 5 ex_state) \<le> 0 \<and>
   chat (loop_env ex_last) \<noteq> None \<and> chatId_after ex_last = ''chat1'' \<and>
   fst (vectorizeLoop ex_ext ''chat1'' [ex_last, ex_last] ex_state) = Finished \<and>
   fst (snd (vectorizeLoop ex_ext ''chat1'' [ex_last, ex_last] ex_state)) = [-2] \<and>
   \<not> send_press ex_more \<and>
   0 < fst (synchronizeChat ex_ext (loop_env ex_more) (loop_sync ex_more) 5 ex_state) \<and>
   chat (loop_env ex_more) \<noteq> None \<and> chatId_after ex_more = ''chat1'' \<and>
   fst (snd (vectorizeLoop ex_ext ''chat1'' [ex_more, ex_last] ex_state)) = [1, -2]"
  using synchronizeChat_remaining [where ext = ex_ext and e = ex_env and io = ex_io and b = 5
    and s = ex_state and i = ex_last and ?s1.0 = ex_state and cid = "''chat1''"
    and rest = "[ex_last]" and j = ex_more and ?s2.0 = ex_state]
  by (simp add: ex_defs sync_defs)

subsection \<open>Blocked calls and the re-entrancy flag\<close>

lemma blocked_wait:
  "(\<forall>p \<in> set ps. fst p \<or> snd p) \<Longrightarrow>
     waitUntilCondition (\<lambda>(blocked, send_press). \<not> blocked \<and> \<not> send_press) ps = None"
  by (auto simp: waitUntilCondition_def find_None_iff)

text \<open>
  Claim C4, as amended. A call that, at every poll of its wait, finds the flag held or a
  generation in progress returns \<open>-1\<close> and changes nothing but the view of the flag: it
  issues no request and sets no prompt. The value \<open>-1\<close> differs from \<open>0\<close>; it is not
  distinct from the values of successful calls, one of which is \<open>-1\<close>.
\<close>

theorem synchronizeChat_blocked:
  assumes "enabled_chats (settings e)" and "\<forall>p \<in> set (polls io). fst p \<or> snd p"
  shows "synchronizeChat ext e io b s =
           (-1, s\<lparr>syncBlocked := (if polls io = [] then syncBlocked s
                                   else fst (last (polls io)))\<rparr>) \<and>
         requests (snd (synchronizeChat ext e io b s)) = requests s \<and>
         prompts (snd (synchronizeChat ext e io b s)) = prompts s"
  using assms blocked_wait [of "polls io"] by (auto simp: synchronizeChat_def)

theorem synchronizeChat_blocked_witness:
  "enabled_chats (settings ex_env) \<and> polls ex_io_blocked = [(True, False)] \<and>
   fst (synchronizeChat ex_ext ex_env ex_io_blocked 5 ex_state) = -1 \<and>
   requests (snd (synchronizeChat ex_ext ex_env ex_io_blocked 5 ex_state)) = []"
  using synchronizeChat_blocked [of ex_env ex_io_blocked ex_ext 5 ex_state]
  by (simp add: ex_defs)

text \<open>
  The claim as stated fails: the blocked call and a successful call that found four new
  items for a batch of five return the same value.
\<close>

theorem synchronizeChat_blocked_counterexample:
  "polls ex_io_blocked = [(True, False)] \<and>
   fst (synchronizeChat ex_ext ex_env ex_io_blocked 5 ex_state) = -1 \<and>
   succeeds ex_ext ex_env ex_io_empty 5 ex_state \<and>
   fst (synchronizeChat ex_ext ex_env ex_io_empty 5 ex_state) = -1 \<and>
   length (requests (snd (synchronizeChat ex_ext ex_env ex_io_empty 5 ex_state))) = 2"
  by (simp add: ex_defs sync_defs)

text \<open>
  Claim C8, as amended. A call that gets past its wait leaves the flag false, however its
  body ends (a value, no chat, or any exception). A call that returns before it takes the
  flag does not touch it: with chat vectorization disabled the state is unchanged, and
  after a time-out the flag is as the last poll saw it.
\<close>

theorem synchronizeChat_guard:
  "(enabled_chats (settings e) \<and>
    waitUntilCondition (\<lambda>(blocked, send_press). \<not> blocked \<and> \<not> send_press) (polls io) \<noteq> None \<longrightarrow>
      syncBlocked (snd (synchronizeChat ext e io b s)) = False) \<and>
   (\<not> enabled_chats (settings e1) \<longrightarrow> synchronizeChat ext e1 io1 b s1 = (-1, s1)) \<and>
   (enabled_chats (settings e2) \<and>
    waitUntilCondition (\<lambda>(blocked, send_press). \<not> blocked \<and> \<not> send_press) (polls io2) = None \<longrightarrow>
      snd (synchronizeChat ext e2 io2 b s2) =
        s2\<lparr>syncBlocked := (if polls io2 = [] then syncBlocked s2 else fst (last (polls io2)))\<rparr>)"
  by (auto simp: synchronizeChat_def split: option.splits sum.splits prod.splits)

theorem synchronizeChat_guard_witness:
  "enabled_chats (settings ex_env) \<and>
   waitUntilCondition (\<lambda>(blocked, send_press). \<not> blocked \<and> \<not> send_press) (polls ex_io) =
     Some (False, False) \<and>
   syncBlocked (snd (synchronizeChat ex_ext ex_env ex_io 5 (ex_state\<lparr>syncBlocked := True\<rparr>))) =
     False \<and>
   \<not> enabled_chats (settings (ex_env\<lparr>settings := ex_settings\<lparr>enabled_chats := False\<rparr>\<rparr>)) \<and>
   fst (synchronizeChat ex_ext (ex_env\<lparr>settings := ex_settings\<lparr>enabled_chats := False\<rparr>\<rparr>)
          ex_io 5 ex_state) = -1 \<and>
   waitUntilCondition (\<lambda>(blocked, send_press). \<not> blocked \<and> \<not> send_press) (polls ex_io_blocked) =
     None \<and>
   requests (snd (synchronizeChat ex_ext ex_env ex_io_blocked 5 ex_state)) = []"
  using synchronizeChat_guard [where e = ex_env and io = ex_io and ext = ex_ext and b = 5
    and s = "ex_state\<lparr>syncBlocked := True\<rparr>"
    and ?e1.0 = "ex_env\<lparr>settings := ex_settings\<lparr>enabled_chats := False\<rparr>\<rparr>"
    and ?io1.0 = ex_io and ?s1.0 = ex_state and ?e2.0 = ex_env and ?io2.0 = ex_io_blocked
    and ?s2.0 = ex_state]
  by (simp add: ex_defs sync_defs)

text \<open>
  The claim as stated fails: a call that times out while another call holds the flag
  completes with the flag still true.
\<close>

theorem synchronizeChat_guard_counterexample:
  "syncBlocked (snd (synchronizeChat ex_ext ex_env ex_io_blocked 5
     (ex_state\<lparr>syncBlocked := True\<rparr>)))"
  by (simp add: ex_defs sync_defs)

subsection \<open>Chunks keep the hash and index of their item\<close>

text \<open>
  Claim C10. \<^verbatim>\<open>splitByChunks\<close> keeps the order of the items, and every chunk carries the
  hash and the index of the item it was cut from: the hashes and indices of the result are
  those of the items, each repeated once per chunk. A successful call that has items to
  insert sends exactly these chunks of its first batch.
\<close>

theorem splitByChunks_keeps_hash_index:
  "map (\<lambda>c. (hash c, index c)) (splitByChunks ext st items) =
     concat (map (\<lambda>item. replicate
        (if message_chunk_size st \<le> 0 then 1
         else length (splitRecursive ext (item_text item) (message_chunk_size st)))
        (hash item, index item)) items) \<and>
   (\<forall>c \<in> set (splitByChunks ext st items).
      \<exists>item \<in> set items. hash c = hash item \<and> index c = index item \<and>
        (message_chunk_size st \<le> 0 \<and> c = item \<or>
         0 < message_chunk_size st \<and>
         item_text c \<in> set (splitRecursive ext (item_text item) (message_chunk_size st)))) \<and>
   (succeeds ext e io b s \<and> delta ext e io = Some (toInsert, toDelete) \<and> toInsert \<noteq> [] \<longrightarrow>
      filter (\<lambda>r. case r of InsertReq _ _ _ \<Rightarrow> True | _ \<Rightarrow> False)
        (drop (length (requests s)) (requests (snd (synchronizeChat ext e io b s)))) =
      [InsertReq (chatId e) (splitByChunks ext (settings e) (slice_to toInsert b))
         (source (settings e))])"
proof -
  let ?n = "message_chunk_size st"
  have A: "map (\<lambda>c. (hash c, index c))
             (concat (map (\<lambda>item. map (\<lambda>chunk. item\<lparr>item_text := chunk\<rparr>)
                                      (splitRecursive ext (item_text item) ?n)) items)) =
           concat (map (\<lambda>item. replicate (length (splitRecursive ext (item_text item) ?n))
                                  (hash item, index item)) items)"
    by (induction items) (auto simp: map_replicate_const comp_def)
  have B: "map (\<lambda>c. (hash c, index c)) items =
           concat (map (\<lambda>item. replicate 1 (hash item, index item)) items)"
    by (induction items) auto
  have C: "map (\<lambda>c. (hash c, index c)) (splitByChunks ext st items) =
     concat (map (\<lambda>item. replicate
        (if message_chunk_size st \<le> 0 then 1
         else length (splitRecursive ext (item_text item) (message_chunk_size st)))
        (hash item, index item)) items)"
    using A B by (auto simp: splitByChunks_def chunkLoop_append)
  have D: "\<forall>c \<in> set (splitByChunks ext st items).
      \<exists>item \<in> set items. hash c = hash item \<and> index c = index item \<and>
        (message_chunk_size st \<le> 0 \<and> c = item \<or>
         0 < message_chunk_size st \<and>
         item_text c \<in> set (splitRecursive ext (item_text item) (message_chunk_size st)))"
    by (auto simp: splitByChunks_def chunkLoop_append)
  have E: "succeeds ext e io b s \<and> delta ext e io = Some (toInsert, toDelete) \<and> toInsert \<noteq> [] \<longrightarrow>
      filter (\<lambda>r. case r of InsertReq _ _ _ \<Rightarrow> True | _ \<Rightarrow> False)
        (drop (length (requests s)) (requests (snd (synchronizeChat ext e io b s)))) =
      [InsertReq (chatId e) (splitByChunks ext (settings e) (slice_to toInsert b))
         (source (settings e))]"
    using succeeds_requests [of ext e io b s toInsert toDelete] by auto
  from C D E show ?thesis by blast
qed

theorem splitByChunks_keeps_hash_index_witness:
  "splitByChunks ex_ext_halves (settings ex_env_small) [ex_item1, ex_item2] =
     [\<lparr>item_text = ''ab'', hash = 1, index = 0\<rparr>, \<lparr>item_text = ''cdef'', hash = 1, index = 0\<rparr>,
      \<lparr>item_text = ''gh'', hash = 2, index = 1\<rparr>, \<lparr>item_text = [], hash = 2, index = 1\<rparr>] \<and>
   succeeds ex_ext_halves ex_env_small ex_io 5 ex_state \<and>
   delta ex_ext_halves ex_env_small ex_io =
     Some ([\<lparr>item_text = ''a'', hash = 1, index = 0\<rparr>,
            \<lparr>item_text = ''ccc'', hash = 3, index = 2\<rparr>,
            \<lparr>item_text = ''dddd'', hash = 4, index = 3\<rparr>], [7]) \<and>
   requests (snd (synchronizeChat ex_ext_halves ex_env_small ex_io 5 ex_state)) =
     [ListReq ''chat1'' ''transformers'',
      InsertReq ''chat1''
        [\<lparr>item_text = ''a'', hash = 1, index = 0\<rparr>, \<lparr>item_text = [], hash = 1, index = 0\<rparr>,
         \<lparr>item_text = ''cc'', hash = 3, index = 2\<rparr>, \<lparr>item_text = ''c'', hash = 3, index = 2\<rparr>,
         \<lparr>item_text = ''dd'', hash = 4, index = 3\<rparr>, \<lparr>item_text = ''dd'', hash = 4, index = 3\<rparr>]
        ''transformers'',
      DeleteReq ''chat1'' [7] ''transformers'']"
  using splitByChunks_keeps_hash_index [where ext = ex_ext_halves
    and st = "settings ex_env_small" and items = "[ex_item1, ex_item2]"
    and e = ex_env_small and io = ex_io and b = 5 and s = ex_state
    and toInsert = "[\<lparr>item_text = ''a'', hash = 1, index = 0\<rparr>,
            \<lparr>item_text = ''ccc'', hash = 3, index = 2\<rparr>,
            \<lparr>item_text = ''dddd'', hash = 4, index = 3\<rparr>]" and toDelete = "[7]"]
  by (simp add: ex_defs sync_defs)

section \<open>Properties of the retrieval injector\<close>

subsection \<open>Positions, removal and the collecting loop\<close>

lemma indexOf_notin: "x \<notin> set xs \<Longrightarrow> indexOf xs x = -1"
  by (induction xs) (auto simp: Let_def)

lemma indexOf_in:
  "x \<in> set xs \<Longrightarrow> 0 \<le> indexOf xs x \<and> nat (indexOf xs x) < length xs \<and>
     xs ! nat (indexOf xs x) = x"
proof (induction xs)
  case Nil
  then show ?case by simp
next
  case (Cons y ys)
  show ?case
  proof (cases "y = x")
    case True
    then show ?thesis by simp
  next
    case False
    with Cons.prems have "x \<in> set ys" by simp
    from Cons.IH [OF this] False show ?thesis
      by (auto simp: Let_def nat_add_distrib)
  qed
qed

lemma indexOf_nonneg_iff: "(0 \<le> indexOf xs x) = (x \<in> set xs)"
  by (cases "x \<in> set xs") (simp_all add: indexOf_in indexOf_notin)

lemma indexOf_eq_iff:
  "(indexOf xs x = int i) = (i < length xs \<and> xs ! i = x \<and> (\<forall>j < i. xs ! j \<noteq> x))"
proof (induction xs arbitrary: i)
  case Nil
  then show ?case by simp
next
  case (Cons y ys)
  show ?case
  proof (cases "y = x")
    case True
    then show ?thesis by (cases i) auto
  next
    case False
    show ?thesis
    proof (cases i)
      case 0
      with False show ?thesis by (auto simp: Let_def)
    next
      case (Suc k)
      have "(indexOf (y # ys) x = int (Suc k)) = (indexOf ys x = int k)"
        using False by (auto simp: Let_def)
      also have "\<dots> = (k < length ys \<and> ys ! k = x \<and> (\<forall>j < k. ys ! j \<noteq> x))"
        by (rule Cons.IH)
      also have "\<dots> = (Suc k < length (y # ys) \<and> (y # ys) ! Suc k = x \<and>
                        (\<forall>j < Suc k. (y # ys) ! j \<noteq> x))"
        using False by (auto simp: less_Suc_eq_0_disj)
      finally show ?thesis using Suc by simp
    qed
  qed
qed

lemma splice1_indexOf: "x \<in> set xs \<Longrightarrow> splice1 xs (indexOf xs x) = remove1 x xs"
proof (induction xs)
  case Nil
  then show ?case by simp
next
  case (Cons y ys)
  show ?case
  proof (cases "y = x")
    case True
    then show ?thesis by (simp add: splice1_def relativeIndex_def)
  next
    case False
    with Cons.prems have in_ys: "x \<in> set ys" by simp
    from indexOf_in [OF in_ys] have b: "0 \<le> indexOf ys x" "nat (indexOf ys x) < length ys"
      by auto
    have "splice1 ys (indexOf ys x) = remove1 x ys" by (rule Cons.IH [OF in_ys])
    then show ?thesis using False b
      by (auto simp: splice1_def relativeIndex_def Let_def nat_add_distrib min_def)
  qed
qed

lemma subseq_remove1: "subseq (remove1 x xs) xs"
  by (induction xs) auto

lemma removeQueried_tail:
  "set q \<inter> set tail = {} \<Longrightarrow> c = pre @ tail \<Longrightarrow>
     \<exists>pre'. removeQueried q c i = pre' @ tail \<and> subseq pre' pre"
proof (induction q c i arbitrary: pre rule: removeQueried.induct)
  case (1 q c i)
  show ?case
  proof (cases "i < length c")
    case False
    then have "removeQueried q c i = c" by (simp add: removeQueried.simps [of q c i])
    then show ?thesis using "1.prems"(2) by auto
  next
    case True
    note lt = this
    show ?thesis
    proof (cases "includes_arr q (c ! i)")
      case False
      from lt False have eq: "removeQueried q c i = removeQueried q c (Suc i)"
        by (simp add: removeQueried.simps [of q c i])
      from "1.IH"(2) [OF lt refl False "1.prems"] show ?thesis unfolding eq .
    next
      case True
      from lt True have eq: "removeQueried q c i =
          removeQueried q (splice1 c (indexOf c (c ! i))) (Suc i)"
        by (simp add: removeQueried.simps [of q c i])
      from True have inq: "c ! i \<in> set q" by (simp add: includes_arr_set)
      have inc: "c ! i \<in> set c" using lt by simp
      from inq "1.prems"(1) have "c ! i \<notin> set tail" by auto
      with inc "1.prems"(2) have inpre: "c ! i \<in> set pre" by auto
      have sp: "splice1 c (indexOf c (c ! i)) = remove1 (c ! i) pre @ tail"
      proof -
        have "splice1 c (indexOf c (c ! i)) = remove1 (c ! i) c" by (rule splice1_indexOf [OF inc])
        also have "\<dots> = remove1 (c ! i) (pre @ tail)" using "1.prems"(2) by simp
        also have "\<dots> = remove1 (c ! i) pre @ tail" using inpre by (simp add: remove1_append)
        finally show ?thesis .
      qed
      from "1.IH"(1) [OF lt refl True "1.prems"(1) sp] obtain pre' where
        p: "removeQueried q (splice1 c (indexOf c (c ! i))) (Suc i) = pre' @ tail"
        and s: "subseq pre' (remove1 (c ! i) pre)" by blast
      from s have "subseq pre' pre" by (rule subseq_order.order_trans [OF _ subseq_remove1])
      with p show ?thesis unfolding eq by blast
    qed
  qed
qed



lemma collectQueried_inv:
  assumes "insertedHashes = messageHash ext hp ` set queriedMessages"
    and "distinct (map (messageHash ext hp) queriedMessages)"
    and "\<forall>m \<in> set queriedMessages. P m"
    and "\<forall>m \<in> set c. m \<notin> set retain \<and> truthy (mes (hp m)) \<and>
           messageHash ext hp m \<in> set queryHashes \<longrightarrow> P m"
  shows "distinct (map (messageHash ext hp) (fst (collectQueried ext hp queryHashes retain c
           (queriedMessages, insertedHashes)))) \<and>
         (\<forall>m \<in> set (fst (collectQueried ext hp queryHashes retain c
           (queriedMessages, insertedHashes))). P m)"
  using assms
proof (induction c arbitrary: queriedMessages insertedHashes)
  case Nil
  then show ?case by simp
next
  case (Cons message rest)
  show ?case
  proof (cases "includes_arr retain message \<or> \<not> truthy (mes (hp message))")
    case True
    then show ?thesis using Cons.IH [of insertedHashes queriedMessages] Cons.prems by auto
  next
    case False
    note nf = this
    show ?thesis
    proof (cases "includes_arr queryHashes (messageHash ext hp message) \<and>
                  messageHash ext hp message \<notin> insertedHashes")
      case False
      then show ?thesis using nf Cons.IH [of insertedHashes queriedMessages] Cons.prems
        by (auto simp: Let_def)
    next
      case True
      have P: "P message" using nf True Cons.prems(4) by (auto simp: includes_arr_set)
      have "distinct (map (messageHash ext hp) (fst (collectQueried ext hp queryHashes retain rest
           (queriedMessages @ [message], insert (messageHash ext hp message) insertedHashes)))) \<and>
         (\<forall>m \<in> set (fst (collectQueried ext hp queryHashes retain rest
           (queriedMessages @ [message], insert (messageHash ext hp message) insertedHashes))). P m)"
      proof (rule Cons.IH)
        show "insert (messageHash ext hp message) insertedHashes =
              messageHash ext hp ` set (queriedMessages @ [message])"
          using Cons.prems(1) by auto
        show "distinct (map (messageHash ext hp) (queriedMessages @ [message]))"
          using Cons.prems(1,2) True by auto
        show "\<forall>m \<in> set (queriedMessages @ [message]). P m" using Cons.prems(3) P by auto
        show "\<forall>m \<in> set rest. m \<notin> set retain \<and> truthy (mes (hp m)) \<and>
                messageHash ext hp m \<in> set queryHashes \<longrightarrow> P m"
          using Cons.prems(4) by auto
      qed
      then show ?thesis using nf True by (auto simp: Let_def)
    qed
  qed
qed

lemma collectQueried_mono:
  "set queriedMessages \<subseteq>
     set (fst (collectQueried ext hp queryHashes retain c (queriedMessages, insertedHashes)))"
proof (induction c arbitrary: queriedMessages insertedHashes)
  case Nil
  then show ?case by simp
next
  case (Cons message rest)
  have "set queriedMessages \<subseteq> set (queriedMessages @ [message])" by auto
  with Cons.IH [of queriedMessages insertedHashes]
    Cons.IH [of "queriedMessages @ [message]" "insert (messageHash ext hp message) insertedHashes"]
  show ?case by (auto simp: Let_def)
qed

lemma collectQueried_complete:
  assumes "insertedHashes = messageHash ext hp ` set queriedMessages"
    and "m \<in> set c" and "m \<notin> set retain" and "truthy (mes (hp m))"
    and "messageHash ext hp m \<in> set queryHashes"
  shows "messageHash ext hp m \<in> messageHash ext hp `
           set (fst (collectQueried ext hp queryHashes retain c (queriedMessages, insertedHashes)))"
  using assms
proof (induction c arbitrary: queriedMessages insertedHashes)
  case Nil
  then show ?case by simp
next
  case (Cons message rest)
  show ?case
  proof (cases "m = message")
    case True
    show ?thesis
    proof (cases "messageHash ext hp message \<in> insertedHashes")
      case True
      with Cons.prems(1) have "messageHash ext hp message \<in> messageHash ext hp ` set queriedMessages"
        by simp
      moreover note collectQueried_mono [of queriedMessages ext hp queryHashes retain
        "message # rest" insertedHashes]
      ultimately show ?thesis using \<open>m = message\<close> by blast
    next
      case False
      have "message \<in> set (queriedMessages @ [message])" by simp
      with collectQueried_mono [of "queriedMessages @ [message]" ext hp queryHashes retain rest
        "insert (messageHash ext hp message) insertedHashes"]
      have "message \<in> set (fst (collectQueried ext hp queryHashes retain rest
         (queriedMessages @ [message], insert (messageHash ext hp message) insertedHashes)))"
        by blast
      then show ?thesis using False \<open>m = message\<close> Cons.prems
        by (auto simp: Let_def includes_arr_set)
    qed
  next
    case False
    with Cons.prems have inrest: "m \<in> set rest" by simp
    have A: "messageHash ext hp m \<in> messageHash ext hp `
           set (fst (collectQueried ext hp queryHashes retain rest (queriedMessages, insertedHashes)))"
      by (rule Cons.IH [OF Cons.prems(1) inrest Cons.prems(3,4,5)])
    have B: "messageHash ext hp m \<in> messageHash ext hp `
           set (fst (collectQueried ext hp queryHashes retain rest
             (queriedMessages @ [message], insert (messageHash ext hp message) insertedHashes)))"
    proof (rule Cons.IH [OF _ inrest Cons.prems(3,4,5)])
      show "insert (messageHash ext hp message) insertedHashes =
            messageHash ext hp ` set (queriedMessages @ [message])"
        using Cons.prems(1) by auto
    qed
    from A B show ?thesis by (simp add: Let_def)
  qed
qed

lemma tail_retained:
  assumes "0 \<le> p" and "p \<le> int (length c)"
  shows "set (drop (length c - nat p) c) \<subseteq> set (slice_from c (- p))"
proof (cases "p = 0")
  case True
  then show ?thesis by (simp add: slice_from_def relativeIndex_def)
next
  case False
  with assms have "relativeIndex (length c) (- p) = length c - nat p"
    by (auto simp: relativeIndex_def)
  then show ?thesis by (simp add: slice_from_def)
qed


lemma queriedMessagesOf_members:
  "distinct (map (messageHash ext hp) (queriedMessagesOf ext hp st qh c)) \<and>
   (\<forall>m \<in> set (queriedMessagesOf ext hp st qh c).
      m \<in> set c \<and> m \<notin> set (slice_from c (- protect st)) \<and> truthy (mes (hp m)) \<and>
      messageHash ext hp m \<in> set qh)"
proof -
  let ?retain = "slice_from c (- protect st)"
  let ?P = "\<lambda>m. m \<in> set c \<and> m \<notin> set ?retain \<and> truthy (mes (hp m)) \<and> messageHash ext hp m \<in> set qh"
  have "distinct (map (messageHash ext hp) (fst (collectQueried ext hp qh ?retain c ([], {})))) \<and>
        (\<forall>m \<in> set (fst (collectQueried ext hp qh ?retain c ([], {}))). ?P m)"
    by (rule collectQueried_inv) auto
  then show ?thesis
    by (simp add: queriedMessagesOf_def Let_def distinct_map inj_on_def)
qed


lemma queriedMessagesOf_complete:
  assumes "m \<in> set c" and "m \<notin> set (slice_from c (- protect st))" and "truthy (mes (hp m))"
    and "messageHash ext hp m \<in> set qh"
  shows "messageHash ext hp m \<in> messageHash ext hp ` set (queriedMessagesOf ext hp st qh c)"
  using collectQueried_complete [of "{}" ext hp "[]" m c "slice_from c (- protect st)" qh] assms
  by (simp add: queriedMessagesOf_def Let_def)


lemma indexOf_inj:
  assumes "x \<in> set xs" and "indexOf xs x = indexOf xs y"
  shows "x = y"
proof -
  from indexOf_in [OF assms(1)] have a: "0 \<le> indexOf xs x" "xs ! nat (indexOf xs x) = x"
    by auto
  from a(1) assms(2) have "0 \<le> indexOf xs y" by simp
  then have "y \<in> set xs" by (simp add: indexOf_nonneg_iff)
  from indexOf_in [OF this] have "xs ! nat (indexOf xs y) = y" by auto
  with a(2) assms(2) show ?thesis by simp
qed

lemma queriedMessagesOf_descending:
  "sorted_wrt (\<lambda>a b. queryRank ext hp qh b < queryRank ext hp qh a)
     (queriedMessagesOf ext hp st qh c)"
proof -
  let ?Q = "queriedMessagesOf ext hp st qh c"
  let ?k = "\<lambda>m. - queryRank ext hp qh m"
  have s: "sorted (map ?k ?Q)"
    unfolding queriedMessagesOf_def Let_def by (rule sorted_sort_key)
  from queriedMessagesOf_members [of ext hp st qh c]
  have d: "distinct (map (messageHash ext hp) ?Q)"
    and m: "\<forall>m \<in> set ?Q. messageHash ext hp m \<in> set qh" by auto
  have inj: "inj_on ?k (set ?Q)"
  proof (rule inj_onI)
    fix a b assume a: "a \<in> set ?Q" and b: "b \<in> set ?Q" and e: "?k a = ?k b"
    from e have "indexOf qh (messageHash ext hp a) = indexOf qh (messageHash ext hp b)"
      by (simp add: queryRank_def)
    moreover from m a have "messageHash ext hp a \<in> set qh" by blast
    ultimately have "messageHash ext hp a = messageHash ext hp b" by (rule indexOf_inj [rotated])
    moreover from d have "inj_on (messageHash ext hp) (set ?Q)" by (simp add: distinct_map)
    ultimately show "a = b" using a b by (rule_tac inj_onD)
  qed
  from d have "distinct ?Q" by (simp add: distinct_map)
  with inj have "distinct (map ?k ?Q)" by (simp add: distinct_map)
  with s have "sorted_wrt (<) (map ?k ?Q)" using strict_sorted_iff [of "map ?k ?Q"] by blast
  then have "sorted_wrt (\<lambda>a b. ?k a < ?k b) ?Q" unfolding sorted_wrt_map .
  then show ?thesis by simp
qed

lemma removeQueried_subseq:
  "subseq (removeQueried q c i) c \<and> (\<forall>m \<in> set c. m \<notin> set q \<longrightarrow> m \<in> set (removeQueried q c i))"
proof (induction q c i rule: removeQueried.induct)
  case (1 q c i)
  show ?case
  proof (cases "i < length c")
    case False
    then have "removeQueried q c i = c" by (simp add: removeQueried.simps [of q c i])
    then show ?thesis by simp
  next
    case True
    note lt = this
    show ?thesis
    proof (cases "includes_arr q (c ! i)")
      case False
      from lt False have eq: "removeQueried q c i = removeQueried q c (Suc i)"
        by (simp add: removeQueried.simps [of q c i])
      from "1.IH"(2) [OF lt refl False] show ?thesis unfolding eq .
    next
      case True
      from lt True have eq: "removeQueried q c i =
          removeQueried q (splice1 c (indexOf c (c ! i))) (Suc i)"
        by (simp add: removeQueried.simps [of q c i])
      from True have inq: "c ! i \<in> set q" by (simp add: includes_arr_set)
      have inc: "c ! i \<in> set c" using lt by simp
      have sp: "splice1 c (indexOf c (c ! i)) = remove1 (c ! i) c"
        by (rule splice1_indexOf [OF inc])
      from "1.IH"(1) [OF lt refl True] have
        A: "subseq (removeQueried q (remove1 (c ! i) c) (Suc i)) (remove1 (c ! i) c)" and
        B: "\<forall>m \<in> set (remove1 (c ! i) c). m \<notin> set q \<longrightarrow>
              m \<in> set (removeQueried q (remove1 (c ! i) c) (Suc i))"
        unfolding sp by auto
      from A have "subseq (removeQueried q (remove1 (c ! i) c) (Suc i)) c"
        by (rule subseq_order.order_trans [OF _ subseq_remove1])
      moreover have "\<forall>m \<in> set c. m \<notin> set q \<longrightarrow>
              m \<in> set (removeQueried q (remove1 (c ! i) c) (Suc i))"
      proof (intro ballI impI)
        fix m assume "m \<in> set c" and n: "m \<notin> set q"
        with inq have "m \<noteq> c ! i" by auto
        with \<open>m \<in> set c\<close> have "m \<in> set (remove1 (c ! i) c)" by simp
        with B n show "m \<in> set (removeQueried q (remove1 (c ! i) c) (Suc i))" by blast
      qed
      ultimately show ?thesis unfolding eq sp by blast
    qed
  qed
qed


lemma injectQueried_chat:
  "fst (injectQueried ext hp st (r :: query_result) c s) =
     removeQueried (queriedMessagesOf ext hp st (filter_onlyUnique (hashes r)) c) c 0"
  by (simp add: injectQueried_def Let_def)


lemma rearrangeMemory_cases:
  assumes "P (Some c)"
    and "\<And>r :: query_result. P (Some (removeQueried
            (queriedMessagesOf ext hp (settings e) (filter_onlyUnique (hashes r)) c) c 0))"
  shows "P (fst (rearrangeMemory ext e hp io (Some c) s))"
  using assms
  by (simp add: rearrangeMemory_def queryCollection_def injectQueried_chat split_beta Let_def
         split: sum.splits option.splits)

lemma rearrangeChat_cases:
  assumes "P (Some c)"
    and "\<And>hp (r :: query_result). P (Some (removeQueried
            (queriedMessagesOf ext hp (settings e) (filter_onlyUnique (hashes r)) c) c 0))"
  shows "P (fst (rearrangeChat ext e io (Some c) s))"
proof -
  have "\<And>hp s'. P (fst (rearrangeMemory ext e hp io (Some c) s'))"
    using assms by (rule rearrangeMemory_cases)
  then show ?thesis using assms(1)
    by (simp add: rearrangeChat_def split_beta Let_def split: sum.splits)
qed

lemma rearrangeChat_few:
  "int (length c) < protect (settings e) \<Longrightarrow> fst (rearrangeChat ext e io (Some c) s) = Some c"
  by (simp add: rearrangeChat_def rearrangeMemory_def split_beta Let_def split: sum.splits)

lemma protect_floor:
  assumes "0 \<le> protect (settings e)" and "protect (settings e) \<le> int (length c)"
  shows "\<exists>pre. fst (rearrangeChat ext e io (Some c) s) =
            Some (pre @ drop (length c - nat (protect (settings e))) c) \<and>
          subseq pre (take (length c - nat (protect (settings e))) c)"
proof (rule rearrangeChat_cases)
  let ?k = "length c - nat (protect (settings e))"
  have "Some c = Some (take ?k c @ drop ?k c) \<and> subseq (take ?k c) (take ?k c)" by simp
  then show "\<exists>pre. Some c = Some (pre @ drop ?k c) \<and> subseq pre (take ?k c)" by blast
next
  fix hp r
  let ?k = "length c - nat (protect (settings e))"
  let ?Q = "queriedMessagesOf ext hp (settings e) (filter_onlyUnique (hashes r)) c"
  from queriedMessagesOf_members [of ext hp "settings e" "filter_onlyUnique (hashes r)" c]
  have "\<forall>m \<in> set ?Q. m \<notin> set (slice_from c (- protect (settings e)))" by blast
  with tail_retained [OF assms] have disj: "set ?Q \<inter> set (drop ?k c) = {}" by blast
  have "c = take ?k c @ drop ?k c" by simp
  from removeQueried_tail [OF disj this, of 0] obtain pre' where
    "removeQueried ?Q c 0 = pre' @ drop ?k c" and "subseq pre' (take ?k c)" by blast
  then show "\<exists>pre. Some (removeQueried ?Q c 0) = Some (pre @ drop ?k c) \<and>
               subseq pre (take ?k c)" by blast
qed

subsection \<open>Deduplication and the Data Bank text\<close>

lemma filter_onlyUnique_set: "set (filter_onlyUnique xs) = set xs"
proof
  show "set (filter_onlyUnique xs) \<subseteq> set xs"
    by (auto simp: filter_onlyUnique_def dest: set_zip_leftD)
  show "set xs \<subseteq> set (filter_onlyUnique xs)"
  proof
    fix x assume "x \<in> set xs"
    from indexOf_in [OF this] have b: "0 \<le> indexOf xs x" "nat (indexOf xs x) < length xs"
      "xs ! nat (indexOf xs x) = x" by auto
    let ?i = "nat (indexOf xs x)"
    have "(x, ?i) \<in> set (zip xs [0 ..< length xs])"
      using b by (auto simp: in_set_zip)
    moreover have "indexOf xs x = int ?i" using b by simp
    ultimately have "(x, ?i) \<in> set (filter (\<lambda>(value, i). indexOf xs value = int i)
                                   (zip xs [0 ..< length xs]))" by simp
    then have "fst (x, ?i) \<in> set (filter_onlyUnique xs)"
      unfolding filter_onlyUnique_def set_map by (rule imageI)
    then show "x \<in> set (filter_onlyUnique xs)" by simp
  qed
qed

lemma filter_onlyUnique_distinct: "distinct (filter_onlyUnique xs)"
proof -
  let ?ps = "filter (\<lambda>(value, i). indexOf xs value = int i) (zip xs [0 ..< length xs])"
  have d: "distinct ?ps" by (simp add: distinct_zipI2)
  have "inj_on fst (set ?ps)"
  proof (rule inj_onI)
    fix p q assume p: "p \<in> set ?ps" and q: "q \<in> set ?ps" and e: "fst p = fst q"
    obtain v i where pv: "p = (v, i)" by (cases p)
    obtain w j where qw: "q = (w, j)" by (cases q)
    from p pv have "indexOf xs v = int i" by simp
    moreover from q qw have "indexOf xs w = int j" by simp
    moreover from e pv qw have "v = w" by simp
    ultimately show "p = q" using pv qw by simp
  qed
  with d show ?thesis by (simp add: filter_onlyUnique_def distinct_map)
qed

lemma filter_onlyUnique_subseq: "subseq (filter_onlyUnique xs) xs"
proof -
  let ?ps = "filter (\<lambda>(value, i). indexOf xs value = int i) (zip xs [0 ..< length xs])"
  have "subseq ?ps (zip xs [0 ..< length xs])" by simp
  then have "subseq (map fst ?ps) (map fst (zip xs [0 ..< length xs]))" by (rule subseq_map)
  then show ?thesis by (simp add: filter_onlyUnique_def)
qed

lemma join_newline_nonempty: "ys @ newline @ newline \<noteq> []"
  by (simp add: newline_def)

lemma dataBankText_acc:
  "dataBankText results acc =
     acc @ concat (map (\<lambda>(collectionId, md). join (collectionTexts md) newline @ newline @ newline)
                       results)"
  by (induction results arbitrary: acc) auto

lemma collectionTexts_props:
  fixes m :: "item list"
  shows "distinct (collectionTexts (Some m))"
    and "set (collectionTexts (Some m)) = {t. t \<noteq> [] \<and> t \<in> item_text ` set m}"
    and "subseq (collectionTexts (Some m))
           (map item_text (sort_key index (filter (\<lambda>x. item_text x \<noteq> []) m)))"
    and "sorted (map index (sort_key index (filter (\<lambda>x. item_text x \<noteq> []) m)))"
    and "mset (sort_key index (filter (\<lambda>x. item_text x \<noteq> []) m)) =
           mset (filter (\<lambda>x. item_text x \<noteq> []) m)"
proof -
  show "distinct (collectionTexts (Some m))"
    by (simp add: collectionTexts_def filter_onlyUnique_distinct)
  show "set (collectionTexts (Some m)) = {t. t \<noteq> [] \<and> t \<in> item_text ` set m}"
    by (auto simp: collectionTexts_def filter_onlyUnique_set truthy_def)
  show "subseq (collectionTexts (Some m))
           (map item_text (sort_key index (filter (\<lambda>x. item_text x \<noteq> []) m)))"
    by (simp add: collectionTexts_def truthy_def filter_onlyUnique_subseq)
  show "sorted (map index (sort_key index (filter (\<lambda>x. item_text x \<noteq> []) m)))"
    by (rule sorted_sort_key)
  show "mset (sort_key index (filter (\<lambda>x. item_text x \<noteq> []) m)) =
           mset (filter (\<lambda>x. item_text x \<noteq> []) m)"
    by (rule mset_sort)
qed

section \<open>Properties of the chunker\<close>

lemma chunk_concat: "concat (chunk t n) = t"
proof (induction t n rule: chunk.induct)
  case (1 t n)
  show ?case
  proof (cases "n = 0 \<or> length t \<le> n")
    case True
    then show ?thesis by (simp add: chunk.simps [of t n])
  next
    case False
    from "1.IH" [OF False] have "concat (chunk (drop (cutPoint t n) t) n) = drop (cutPoint t n) t" .
    with False show ?thesis by (simp add: chunk.simps [of t n])
  qed
qed

lemma chunk_bounded: "0 < n \<Longrightarrow> \<forall>c \<in> set (chunk t n). length c \<le> n"
proof (induction t n rule: chunk.induct)
  case (1 t n)
  show ?case
  proof (cases "n = 0 \<or> length t \<le> n")
    case True
    then show ?thesis using "1.prems" by (simp add: chunk.simps [of t n])
  next
    case False
    from "1.IH" [OF False "1.prems"]
    have "\<forall>c \<in> set (chunk (drop (cutPoint t n) t) n). length c \<le> n" .
    moreover from cutPoint_bounds [OF "1.prems", of t] have "cutPoint t n \<le> n" by simp
    ultimately show ?thesis using False by (simp add: chunk.simps [of t n])
  qed
qed

lemma chunk_nonempty: "t \<noteq> [] \<Longrightarrow> [] \<notin> set (chunk t n)"
proof (induction t n rule: chunk.induct)
  case (1 t n)
  show ?case
  proof (cases "n = 0 \<or> length t \<le> n")
    case True
    then show ?thesis using "1.prems" by (simp add: chunk.simps [of t n])
  next
    case False
    then have n: "0 < n" and l: "n < length t" by auto
    from cutPoint_bounds [OF n, of t] have c: "0 < cutPoint t n" "cutPoint t n \<le> n" by auto
    with l have "drop (cutPoint t n) t \<noteq> []" by simp
    from "1.IH" [OF False this] have "[] \<notin> set (chunk (drop (cutPoint t n) t) n)" .
    moreover from c l "1.prems" have "take (cutPoint t n) t \<noteq> []" by auto
    ultimately show ?thesis using False by (simp add: chunk.simps [of t n])
  qed
qed

section \<open>Claims on the retrieval injector\<close>

text \<open>
  Claim C5. With a protect setting between \<open>0\<close> and the length of the chat, the chat
  after \<^verbatim>\<open>rearrangeChat\<close> ends with the same last messages, in the same order, whatever
  the query returns (or whether it fails); before them stands a subsequence of the earlier
  messages. A chat with fewer messages than the protect setting is returned as it is.
\<close>

theorem rearrangeChat_protect_floor:
  "(0 \<le> protect (settings e) \<and> protect (settings e) \<le> int (length c) \<longrightarrow>
      (\<exists>pre. fst (rearrangeChat ext e io (Some c) s) =
                Some (pre @ drop (length c - nat (protect (settings e))) c) \<and>
             subseq pre (take (length c - nat (protect (settings e))) c))) \<and>
   (int (length c2) < protect (settings e2) \<longrightarrow>
      fst (rearrangeChat ext e2 io (Some c2) s) = Some c2)"
  using protect_floor [of e c ext io s] rearrangeChat_few [of c2 e2 ext io s] by blast

theorem rearrangeChat_protect_floor_witness:
  "0 \<le> protect (settings ex_env1) \<and> protect (settings ex_env1) \<le> int (length [0, 1, 2, 3 :: nat]) \<and>
   fst (rearrangeChat ex_ext ex_env1 ex_rio (Some [0, 1, 2, 3]) ex_state) = Some ([1] @ [3]) \<and>
   drop (length [0, 1, 2, 3 :: nat] - nat (protect (settings ex_env1))) [0, 1, 2, 3] = [3 :: nat] \<and>
   int (length [0, 1, 2, 3 :: nat]) < protect (settings ex_env) \<and>
   fst (rearrangeChat ex_ext ex_env ex_rio (Some [0, 1, 2, 3]) ex_state) = Some [0, 1, 2, 3]"
  using rearrangeChat_protect_floor [where e = ex_env1 and c = "[0, 1, 2, 3]" and ext = ex_ext
    and io = ex_rio and s = ex_state and ?c2.0 = "[0, 1, 2, 3]" and ?e2.0 = ex_env]
  by (simp add: ex_defs retrieval_defs removeQueried.simps)

text \<open>
  When the call gets to its query and the server answers, the chat and the state are
  those of \<open>injectQueried\<close>, after the query request.
\<close>

lemma rearrangeMemory_inject:
  assumes "enabled_chats (settings e)" and "truthy (chatId e)"
    and "\<not> int (length c) < protect (settings e)"
    and "getQueryText ext (settings e) hp (query_summaries io) c = Inr q" and "q \<noteq> []"
    and "query_response io = Some r"
  shows "rearrangeMemory ext e hp io (Some c) s =
           (Some (fst (injectQueried ext hp (settings e) r c
                   (send (QueryReq (chatId e) q (insert_s (settings e)) (source (settings e))) s))),
            snd (injectQueried ext hp (settings e) r c
                   (send (QueryReq (chatId e) q (insert_s (settings e)) (source (settings e))) s)))"
  using assms
  by (simp add: rearrangeMemory_def queryCollection_def split_beta Let_def)

lemma injectQueried_state:
  fixes r :: query_result
  assumes "Q = queriedMessagesOf ext hp st (filter_onlyUnique (hashes r)) c"
  shows "snd (injectQueried ext hp st r c s) =
           (if Q = [] then s
            else setExtensionPrompt EXTENSION_PROMPT_TAG
                   (substituteParams ext (replaceText ext (template st)
                      (join (map (\<lambda>x. trim (collapseNewlines ext (name (hp x) @ '': '' @ mes (hp x)))) Q)
                            (newline @ newline))))
                   (position st) (depth st) (include_wi st) None s)"
  using assms by (simp add: injectQueried_def getPromptText_def queriedText_def Let_def)

text \<open>
  Claim C6, as amended. The matched messages (outside the retained tail, with a text,
  one per hash, every matched hash represented) are ordered by strictly descending
  position of their hash among the deduplicated query hashes: the most relevant message
  comes last in the block. Only matched messages leave the chat, and the rest keeps its
  order. When there is a match, the prompt slot of the chat vectors holds the template
  with the entries of the matched messages, joined by blank lines, at the position and
  depth of the settings; without a match the state is unchanged.
\<close>

theorem injectQueried_order:
  fixes r :: query_result
  assumes "Q = queriedMessagesOf ext hp st (filter_onlyUnique (hashes r)) c"
  shows "sorted_wrt (\<lambda>a b. queryRank ext hp (filter_onlyUnique (hashes r)) b <
                           queryRank ext hp (filter_onlyUnique (hashes r)) a) Q \<and>
         distinct (map (messageHash ext hp) Q) \<and>
         (\<forall>m \<in> set Q. m \<in> set c \<and> m \<notin> set (slice_from c (- protect st)) \<and>
            mes (hp m) \<noteq> [] \<and> messageHash ext hp m \<in> set (hashes r)) \<and>
         (\<forall>m \<in> set c. m \<notin> set (slice_from c (- protect st)) \<and> mes (hp m) \<noteq> [] \<and>
            messageHash ext hp m \<in> set (hashes r) \<longrightarrow>
            messageHash ext hp m \<in> messageHash ext hp ` set Q) \<and>
         subseq (fst (injectQueried ext hp st r c s)) c \<and>
         (\<forall>m \<in> set c. m \<notin> set Q \<longrightarrow> m \<in> set (fst (injectQueried ext hp st r c s))) \<and>
         snd (injectQueried ext hp st r c s) =
           (if Q = [] then s
            else setExtensionPrompt EXTENSION_PROMPT_TAG
                   (substituteParams ext (replaceText ext (template st)
                      (join (map (\<lambda>x. trim (collapseNewlines ext (name (hp x) @ '': '' @ mes (hp x)))) Q)
                            (newline @ newline))))
                   (position st) (depth st) (include_wi st) None s)"
proof -
  let ?qh = "filter_onlyUnique (hashes r)"
  have 1: "sorted_wrt (\<lambda>a b. queryRank ext hp ?qh b < queryRank ext hp ?qh a) Q"
    unfolding assms by (rule queriedMessagesOf_descending)
  from queriedMessagesOf_members [of ext hp st ?qh c]
  have 2: "distinct (map (messageHash ext hp) Q)"
    and 3: "\<forall>m \<in> set Q. m \<in> set c \<and> m \<notin> set (slice_from c (- protect st)) \<and>
            mes (hp m) \<noteq> [] \<and> messageHash ext hp m \<in> set (hashes r)"
    unfolding assms by (auto simp: filter_onlyUnique_set truthy_def)
  have 4: "\<forall>m \<in> set c. m \<notin> set (slice_from c (- protect st)) \<and> mes (hp m) \<noteq> [] \<and>
            messageHash ext hp m \<in> set (hashes r) \<longrightarrow>
            messageHash ext hp m \<in> messageHash ext hp ` set Q"
    unfolding assms
    using queriedMessagesOf_complete [of _ c st hp ext ?qh]
    by (simp add: filter_onlyUnique_set truthy_def)
  from removeQueried_subseq [of Q c 0]
  have 5: "subseq (fst (injectQueried ext hp st r c s)) c"
    and 6: "\<forall>m \<in> set c. m \<notin> set Q \<longrightarrow> m \<in> set (fst (injectQueried ext hp st r c s))"
    unfolding assms injectQueried_chat by auto
  note 7 = injectQueried_state [OF assms, of s]
  from 1 2 3 4 5 6 7 show ?thesis by blast
qed

theorem injectQueried_order_witness:
  "[0, 2] = queriedMessagesOf ex_ext ex_heap (settings ex_env1)
              (filter_onlyUnique (hashes ex_result)) [0, 1, 2, 3] \<and>
   queryRank ex_ext ex_heap (filter_onlyUnique (hashes ex_result)) 2 = 0 \<and>
   queryRank ex_ext ex_heap (filter_onlyUnique (hashes ex_result)) 0 = 1 \<and>
   fst (injectQueried ex_ext ex_heap (settings ex_env1) ex_result [0, 1, 2, 3] ex_state) = [1, 3] \<and>
   prompts (snd (injectQueried ex_ext ex_heap (settings ex_env1) ex_result [0, 1, 2, 3] ex_state))
     EXTENSION_PROMPT_TAG =
     Some \<lparr>prompt_text = ''Past events: Ann: a\<newline>\<newline>Ann: ccc'', prompt_position = 0,
            prompt_depth = 2, prompt_scan = False, prompt_role = None\<rparr>"
  using injectQueried_order [where Q = "[0, 2]" and ext = ex_ext and hp = ex_heap
    and st = "settings ex_env1" and r = ex_result and c = "[0, 1, 2, 3]" and s = ex_state]
  by (simp add: ex_defs retrieval_defs removeQueried.simps)

text \<open>
  The claim as stated fails: the third message has the most relevant hash (the first of
  the query hashes), and it comes last in the block, after the first message.
\<close>

theorem injectQueried_order_counterexample:
  "queriedMessagesOf ex_ext ex_heap (settings ex_env1)
     (filter_onlyUnique (hashes ex_result)) [0, 1, 2, 3] = [0, 2] \<and>
   filter_onlyUnique (hashes ex_result) = [3, 1] \<and>
   messageHash ex_ext ex_heap 2 = 3 \<and> messageHash ex_ext ex_heap 0 = 1 \<and>
   queriedText ex_ext ex_heap [0, 2] = ''Ann: a\<newline>\<newline>Ann: ccc''"
  by (simp add: ex_defs retrieval_defs)

text \<open>
  The second loop removes elements of the array it iterates over, so the message that
  follows a removed one is not visited: of two matched neighbours the second stays in the
  chat.
\<close>

lemma removeQueried_skips_neighbour:
  "queriedMessagesOf ex_ext ex_heap (settings ex_env1) [2, 1] [0, 1, 2, 3] = [0, 1] \<and>
   removeQueried [0, 1] [0, 1, 2, 3] 0 = [1, 2, 3]"
  by (simp add: ex_defs retrieval_defs removeQueried.simps)

lemma dataBankText_nonempty: "results \<noteq> [] \<Longrightarrow> truthy (dataBankText results [])"
  by (cases results) (auto simp: dataBankText_acc truthy_def newline_def)

text \<open>
  Claim C7, as amended. The Data Bank text is the concatenation, in the order of the
  collections, of each collection's texts joined by newlines and followed by a blank line
  (also after the last collection). The texts of one collection are distinct, are exactly
  its non-empty texts, and stand in the order of ascending index. Deduplication is per
  collection: a text of two collections appears once for each. With at least one
  collection in the result, the Data Bank prompt slot holds the template with this text.
\<close>

theorem dataBankText_per_collection:
  fixes m :: "item list"
  shows "dataBankText results [] =
           concat (map (\<lambda>(collectionId, md). join (collectionTexts md) newline @ newline @ newline)
                       results) \<and>
         collectionTexts None = [] \<and>
         distinct (collectionTexts (Some m)) \<and>
         set (collectionTexts (Some m)) = {t. t \<noteq> [] \<and> t \<in> item_text ` set m} \<and>
         subseq (collectionTexts (Some m))
           (map item_text (sort_key index (filter (\<lambda>x. item_text x \<noteq> []) m))) \<and>
         sorted (map index (sort_key index (filter (\<lambda>x. item_text x \<noteq> []) m))) \<and>
         mset (sort_key index (filter (\<lambda>x. item_text x \<noteq> []) m)) =
           mset (filter (\<lambda>x. item_text x \<noteq> []) m) \<and>
         (results \<noteq> [] \<longrightarrow>
            prompts (injectDataBankChunks ext e queryText collectionIds (Some results) s)
              EXTENSION_PROMPT_TAG_DB =
            Some \<lparr>prompt_text = substituteParams ext
                     (replaceText ext (file_template_db (settings e)) (dataBankText results [])),
                  prompt_position = file_position_db (settings e),
                  prompt_depth = file_depth_db (settings e),
                  prompt_scan = include_wi (settings e),
                  prompt_role = Some (file_depth_role_db (settings e))\<rparr>)"
proof -
  have A: "dataBankText results [] =
           concat (map (\<lambda>(collectionId, md). join (collectionTexts md) newline @ newline @ newline)
                       results)"
    by (simp add: dataBankText_acc)
  have B: "collectionTexts None = []" by (simp add: collectionTexts_def)
  have C: "results \<noteq> [] \<longrightarrow>
            prompts (injectDataBankChunks ext e queryText collectionIds (Some results) s)
              EXTENSION_PROMPT_TAG_DB =
            Some \<lparr>prompt_text = substituteParams ext
                     (replaceText ext (file_template_db (settings e)) (dataBankText results [])),
                  prompt_position = file_position_db (settings e),
                  prompt_depth = file_depth_db (settings e),
                  prompt_scan = include_wi (settings e),
                  prompt_role = Some (file_depth_role_db (settings e))\<rparr>"
    using dataBankText_nonempty [of results]
    by (simp add: injectDataBankChunks_def queryMultipleCollections_def setExtensionPrompt_def
          Let_def)
  from A B C collectionTexts_props [of m] show ?thesis by blast
qed

theorem dataBankText_per_collection_witness:
  "ex_multi \<noteq> [] \<and>
   dataBankText ex_multi [] = ''b\<newline>a\<newline>\<newline>a\<newline>\<newline>'' \<and>
   map_option prompt_text
     (prompts (injectDataBankChunks ex_ext ex_env ''q'' [''file_1'', ''file_2''] (Some ex_multi)
        ex_state) EXTENSION_PROMPT_TAG_DB) =
     Some ''Related information: b\<newline>a\<newline>\<newline>a\<newline>\<newline>''"
  using dataBankText_per_collection [where results = ex_multi and ext = ex_ext and e = ex_env
    and queryText = "''q''" and collectionIds = "[''file_1'', ''file_2'']" and s = ex_state]
  by (simp add: ex_defs ex_multi_def retrieval_defs collectionTexts_def injectDataBankChunks_def
        queryMultipleCollections_def)

text \<open>
  The claim as stated fails: a text that two collections share appears twice in the
  text that is injected.
\<close>

theorem dataBankText_per_collection_counterexample:
  "dataBankText [(''file_1'', Some [\<lparr>item_text = ''a'', hash = 2, index = 0\<rparr>]),
                 (''file_2'', Some [\<lparr>item_text = ''a'', hash = 2, index = 0\<rparr>])] [] =
     ''a\<newline>\<newline>a\<newline>\<newline>''"
  by (simp add: retrieval_defs collectionTexts_def)

section \<open>Claims on the chunker\<close>

text \<open>
  Claim C9. With a message chunk size that is not positive, \<^verbatim>\<open>splitByChunks\<close> returns
  the items as they are, each whole; the chunker of the specification returns the text
  whole for such a size. For a positive size the chunks of the chunker of the
  specification are in order (their concatenation is the text) and have at most that many
  characters, and so have the chunks that \<^verbatim>\<open>splitByChunks\<close> makes with it, item after
  item.
\<close>

theorem splitByChunks_sizes:
  "(message_chunk_size st \<le> 0 \<longrightarrow> splitByChunks ext st items = items) \<and>
   (maxSize \<le> 0 \<longrightarrow> splitRecursive_spec t maxSize = [t]) \<and>
   (0 < maxSize \<longrightarrow>
      concat (splitRecursive_spec t maxSize) = t \<and>
      (\<forall>c \<in> set (splitRecursive_spec t maxSize). int (length c) \<le> maxSize)) \<and>
   (0 < message_chunk_size st \<and> splitRecursive ext = splitRecursive_spec \<longrightarrow>
      splitByChunks ext st items =
        concat (map (\<lambda>item. map (\<lambda>chunk. item\<lparr>item_text := chunk\<rparr>)
                      (splitRecursive_spec (item_text item) (message_chunk_size st))) items) \<and>
      (\<forall>c \<in> set (splitByChunks ext st items).
         int (length (item_text c)) \<le> message_chunk_size st))"
proof -
  have A: "message_chunk_size st \<le> 0 \<longrightarrow> splitByChunks ext st items = items"
    by (simp add: splitByChunks_def)
  have B: "maxSize \<le> 0 \<longrightarrow> splitRecursive_spec t maxSize = [t]"
    by (simp add: splitRecursive_spec_def)
  have bounded: "\<And>n u. 0 < n \<Longrightarrow> \<forall>c \<in> set (splitRecursive_spec u n). int (length c) \<le> n"
  proof -
    fix n :: int and u assume n: "0 < n"
    then have "0 < nat n" by simp
    from chunk_bounded [OF this, of u] n show
      "\<forall>c \<in> set (splitRecursive_spec u n). int (length c) \<le> n"
      by (auto simp: splitRecursive_spec_def)
  qed
  have C: "0 < maxSize \<longrightarrow>
      concat (splitRecursive_spec t maxSize) = t \<and>
      (\<forall>c \<in> set (splitRecursive_spec t maxSize). int (length c) \<le> maxSize)"
    using bounded [of maxSize t] by (simp add: splitRecursive_spec_def chunk_concat)
  have D: "0 < message_chunk_size st \<and> splitRecursive ext = splitRecursive_spec \<longrightarrow>
      splitByChunks ext st items =
        concat (map (\<lambda>item. map (\<lambda>chunk. item\<lparr>item_text := chunk\<rparr>)
                      (splitRecursive_spec (item_text item) (message_chunk_size st))) items) \<and>
      (\<forall>c \<in> set (splitByChunks ext st items).
         int (length (item_text c)) \<le> message_chunk_size st)"
    using bounded [of "message_chunk_size st"]
    by (auto simp: splitByChunks_def chunkLoop_append)
  from A B C D show ?thesis by blast
qed

theorem splitByChunks_sizes_witness:
  "message_chunk_size (ex_settings\<lparr>message_chunk_size := -1\<rparr>) \<le> 0 \<and>
   splitByChunks ex_ext_spec (ex_settings\<lparr>message_chunk_size := -1\<rparr>) [ex_item1, ex_item2] =
     [ex_item1, ex_item2] \<and>
   (-1 :: int) \<le> 0 \<and> splitRecursive_spec ''one two three'' (-1) = [''one two three''] \<and>
   0 < message_chunk_size (ex_settings\<lparr>message_chunk_size := 4\<rparr>) \<and>
   splitRecursive ex_ext_spec = splitRecursive_spec \<and>
   splitByChunks ex_ext_spec (ex_settings\<lparr>message_chunk_size := 4\<rparr>) [ex_item1, ex_item2] =
     [\<lparr>item_text = ''abcd'', hash = 1, index = 0\<rparr>, \<lparr>item_text = ''ef'', hash = 1, index = 0\<rparr>,
      \<lparr>item_text = ''gh'', hash = 2, index = 1\<rparr>]"
  using splitByChunks_sizes [where st = "ex_settings\<lparr>message_chunk_size := -1\<rparr>"
      and ext = ex_ext_spec and items = "[ex_item1, ex_item2]" and maxSize = "-1"
      and t = "''one two three''"]
    splitByChunks_sizes [where st = "ex_settings\<lparr>message_chunk_size := 4\<rparr>"
      and ext = ex_ext_spec and items = "[ex_item1, ex_item2]" and maxSize = 4
      and t = "''one two three''"]
  by (simp add: ex_defs ex_ext_spec_def splitByChunks_def splitRecursive_spec_def chunk.simps
        cutPoint_def is_space_def)

section \<open>Claims on the vector client\<close>

lemma throwIfSourceInvalid_key:
  "required_secret (source (settings e)) = Some k \<Longrightarrow> \<not> secret_state e k \<Longrightarrow>
     throwIfSourceInvalid e = Inl (Error (Some api_key_missing))"
  by (auto simp: required_secret_def throwIfSourceInvalid_def Let_def split: if_splits)

lemma throwIfSourceInvalid_url:
  "source (settings e) = ''ollama'' \<and> server_urls e OLLAMA = [] \<or>
   source (settings e) = ''llamacpp'' \<and> server_urls e LLAMACPP = [] \<Longrightarrow>
     throwIfSourceInvalid e = Inl (Error (Some api_url_missing))"
  by (auto simp: throwIfSourceInvalid_def truthy_def Let_def)

lemma throwIfSourceInvalid_model:
  "source (settings e) = ''ollama'' \<Longrightarrow> server_urls e OLLAMA \<noteq> [] \<Longrightarrow>
   ollama_model (settings e) = [] \<Longrightarrow>
     throwIfSourceInvalid e = Inl (Error (Some api_model_missing))"
  by (auto simp: throwIfSourceInvalid_def truthy_def Let_def)

lemma throwIfSourceInvalid_module:
  "source (settings e) = ''extras'' \<Longrightarrow> ''embeddings'' \<notin> set (modules e) \<Longrightarrow>
     throwIfSourceInvalid e = Inl (Error (Some extras_module_missing))"
  by (auto simp: throwIfSourceInvalid_def truthy_def Let_def includes_arr_set)

lemma throwIfSourceInvalid_cause:
  "throwIfSourceInvalid e = Inl x \<Longrightarrow>
     x \<in> {Error (Some api_key_missing), Error (Some api_url_missing),
          Error (Some api_model_missing), Error (Some extras_module_missing)}"
  by (auto simp: throwIfSourceInvalid_def Let_def split: if_splits)

lemma throwIfSourceInvalid_valid:
  assumes "(\<forall>k'. required_secret (source (settings e)) = Some k' \<longrightarrow> secret_state e k') \<and>
    (source (settings e) = ''ollama'' \<longrightarrow>
       server_urls e OLLAMA \<noteq> [] \<and> ollama_model (settings e) \<noteq> []) \<and>
    (source (settings e) = ''llamacpp'' \<longrightarrow> server_urls e LLAMACPP \<noteq> []) \<and>
    (source (settings e) = ''extras'' \<longrightarrow> ''embeddings'' \<in> set (modules e))"
  shows "throwIfSourceInvalid e = Inr ()"
proof -
  from assms have k: "\<And>k'. required_secret (source (settings e)) = Some k' \<Longrightarrow> secret_state e k'"
    by blast
  have "\<not> (source (settings e) = ''openai'' \<and> \<not> secret_state e OPENAI)"
    using k [of OPENAI] by (auto simp: required_secret_def)
  moreover have "\<not> (source (settings e) = ''palm'' \<and> \<not> secret_state e MAKERSUITE)"
    using k [of MAKERSUITE] by (auto simp: required_secret_def)
  moreover have "\<not> (source (settings e) = ''mistral'' \<and> \<not> secret_state e MISTRALAI)"
    using k [of MISTRALAI] by (auto simp: required_secret_def)
  moreover have "\<not> (source (settings e) = ''togetherai'' \<and> \<not> secret_state e TOGETHERAI)"
    using k [of TOGETHERAI] by (auto simp: required_secret_def)
  moreover have "\<not> (source (settings e) = ''nomicai'' \<and> \<not> secret_state e NOMICAI)"
    using k [of NOMICAI] by (auto simp: required_secret_def)
  moreover have "\<not> (source (settings e) = ''cohere'' \<and> \<not> secret_state e COHERE)"
    using k [of COHERE] by (auto simp: required_secret_def)
  ultimately show ?thesis using assms
    by (simp add: throwIfSourceInvalid_def truthy_def includes_arr_set Let_def)
qed

text \<open>
  Claim C3, as amended. \<^verbatim>\<open>insertVectorItems\<close> validates the source before it sends. It
  fails with the classified cause, and issues no request, when a source that needs a key
  has none stored (\<open>api_key_missing\<close>), when \<^verbatim>\<open>ollama\<close> or \<^verbatim>\<open>llamacpp\<close> has no server URL
  (\<open>api_url_missing\<close>), when \<^verbatim>\<open>ollama\<close> has a URL and no model (\<open>api_model_missing\<close>), and
  when \<^verbatim>\<open>extras\<close> has no embeddings module (\<open>extras_module_missing\<close>); when none of
  these is the case it sends its request. The list and delete operations do not validate
  the source: they send their request in every case. The purge operation does not
  validate the source either: it sends its request whenever chat vectorization is
  enabled, and returns true without a request when it is disabled.
\<close>

theorem insertVectorItems_validates:
  "(required_secret (source (settings e)) = Some k \<and> \<not> secret_state e k \<longrightarrow>
      throwIfSourceInvalid e = Inl (Error (Some api_key_missing))) \<and>
   (source (settings e) = ''ollama'' \<and> server_urls e OLLAMA = [] \<or>
    source (settings e) = ''llamacpp'' \<and> server_urls e LLAMACPP = [] \<longrightarrow>
      throwIfSourceInvalid e = Inl (Error (Some api_url_missing))) \<and>
   (source (settings e) = ''ollama'' \<and> server_urls e OLLAMA \<noteq> [] \<and>
    ollama_model (settings e) = [] \<longrightarrow>
      throwIfSourceInvalid e = Inl (Error (Some api_model_missing))) \<and>
   (source (settings e) = ''extras'' \<and> ''embeddings'' \<notin> set (modules e) \<longrightarrow>
      throwIfSourceInvalid e = Inl (Error (Some extras_module_missing))) \<and>
   (throwIfSourceInvalid e = Inl x \<longrightarrow>
      insertVectorItems e collectionId items response s = (Inl x, s) \<and>
      x \<in> {Error (Some api_key_missing), Error (Some api_url_missing),
           Error (Some api_model_missing), Error (Some extras_module_missing)}) \<and>
   ((\<forall>k'. required_secret (source (settings e)) = Some k' \<longrightarrow> secret_state e k') \<and>
    (source (settings e) = ''ollama'' \<longrightarrow>
       server_urls e OLLAMA \<noteq> [] \<and> ollama_model (settings e) \<noteq> []) \<and>
    (source (settings e) = ''llamacpp'' \<longrightarrow> server_urls e LLAMACPP \<noteq> []) \<and>
    (source (settings e) = ''extras'' \<longrightarrow> ''embeddings'' \<in> set (modules e)) \<longrightarrow>
      throwIfSourceInvalid e = Inr ()) \<and>
   (throwIfSourceInvalid e = Inr () \<longrightarrow>
      requests (snd (insertVectorItems e collectionId items response s)) =
        requests s @ [InsertReq collectionId items (source (settings e))]) \<and>
   requests (snd (getSavedHashes e collectionId list_resp s)) =
     requests s @ [ListReq collectionId (source (settings e))] \<and>
   requests (snd (deleteVectorItems e collectionId hs response s)) =
     requests s @ [DeleteReq collectionId hs (source (settings e))] \<and>
   (enabled_chats (settings e) \<longrightarrow>
      requests (snd (purgeVectorIndex e collectionId response s)) =
        requests s @ [PurgeReq collectionId]) \<and>
   (\<not> enabled_chats (settings e) \<longrightarrow>
      purgeVectorIndex e collectionId response s = (True, s))"
proof -
  have A: "throwIfSourceInvalid e = Inl x \<longrightarrow>
      insertVectorItems e collectionId items response s = (Inl x, s)"
    by (simp add: insertVectorItems_def)
  have B: "throwIfSourceInvalid e = Inr () \<longrightarrow>
      requests (snd (insertVectorItems e collectionId items response s)) =
        requests s @ [InsertReq collectionId items (source (settings e))]"
    by (simp add: insertVectorItems_def send_def Let_def split: option.splits)
  have C: "requests (snd (getSavedHashes e collectionId list_resp s)) =
     requests s @ [ListReq collectionId (source (settings e))]"
    by (simp add: getSavedHashes_def send_def Let_def split: option.splits)
  have D: "requests (snd (deleteVectorItems e collectionId hs response s)) =
     requests s @ [DeleteReq collectionId hs (source (settings e))]"
    by (simp add: deleteVectorItems_def send_def Let_def split: option.splits)
  have E: "enabled_chats (settings e) \<longrightarrow>
      requests (snd (purgeVectorIndex e collectionId response s)) =
        requests s @ [PurgeReq collectionId]"
    by (simp add: purgeVectorIndex_def send_def Let_def split: option.splits)
  have F: "\<not> enabled_chats (settings e) \<longrightarrow>
      purgeVectorIndex e collectionId response s = (True, s)"
    by (simp add: purgeVectorIndex_def)
  have G: "(\<forall>k'. required_secret (source (settings e)) = Some k' \<longrightarrow> secret_state e k') \<and>
    (source (settings e) = ''ollama'' \<longrightarrow>
       server_urls e OLLAMA \<noteq> [] \<and> ollama_model (settings e) \<noteq> []) \<and>
    (source (settings e) = ''llamacpp'' \<longrightarrow> server_urls e LLAMACPP \<noteq> []) \<and>
    (source (settings e) = ''extras'' \<longrightarrow> ''embeddings'' \<in> set (modules e)) \<longrightarrow>
      throwIfSourceInvalid e = Inr ()"
    by (rule impI) (rule throwIfSourceInvalid_valid)
  from A B C D E F G throwIfSourceInvalid_key [of e k] throwIfSourceInvalid_url [of e]
    throwIfSourceInvalid_model [of e] throwIfSourceInvalid_module [of e]
    throwIfSourceInvalid_cause [of e x]
  show ?thesis by blast
qed

theorem insertVectorItems_validates_witness:
  "required_secret (source (settings ex_env_openai)) = Some OPENAI \<and>
   \<not> secret_state ex_env_openai OPENAI \<and>
   insertVectorItems ex_env_openai ''chat1'' [ex_item1] (Some ()) ex_state =
     (Inl (Error (Some api_key_missing)), ex_state) \<and>
   source (settings ex_env_ollama) = ''ollama'' \<and> server_urls ex_env_ollama OLLAMA = [] \<and>
   throwIfSourceInvalid ex_env_ollama = Inl (Error (Some api_url_missing)) \<and>
   server_urls (ex_env_ollama\<lparr>server_urls := (\<lambda>t. ''http://localhost'')\<rparr>) OLLAMA \<noteq> [] \<and>
   ollama_model (settings (ex_env_ollama\<lparr>settings :=
     ex_settings\<lparr>source := ''ollama'', ollama_model := []\<rparr>,
     server_urls := (\<lambda>t. ''http://localhost'')\<rparr>)) = [] \<and>
   throwIfSourceInvalid (ex_env_ollama\<lparr>settings :=
     ex_settings\<lparr>source := ''ollama'', ollama_model := []\<rparr>,
     server_urls := (\<lambda>t. ''http://localhost'')\<rparr>) = Inl (Error (Some api_model_missing)) \<and>
   source (settings ex_env_extras) = ''extras'' \<and> ''embeddings'' \<notin> set (modules ex_env_extras) \<and>
   throwIfSourceInvalid ex_env_extras = Inl (Error (Some extras_module_missing)) \<and>
   throwIfSourceInvalid ex_env = Inr () \<and> enabled_chats (settings ex_env) \<and>
   requests (snd (insertVectorItems ex_env ''chat1'' [ex_item1] (Some ()) ex_state)) =
     [InsertReq ''chat1'' [ex_item1] ''transformers''] \<and>
   requests (snd (purgeVectorIndex ex_env ''chat1'' (Some ()) ex_state)) = [PurgeReq ''chat1''] \<and>
   required_secret (source (settings ex_env)) = None \<and>
   source (settings ex_env) = ''transformers'' \<and>
   \<not> enabled_chats (settings (ex_env\<lparr>settings := ex_settings\<lparr>enabled_chats := False\<rparr>\<rparr>)) \<and>
   fst (purgeVectorIndex (ex_env\<lparr>settings := ex_settings\<lparr>enabled_chats := False\<rparr>\<rparr>)
          ''chat1'' (Some ()) ex_state) = True \<and>
   requests (snd (purgeVectorIndex (ex_env\<lparr>settings := ex_settings\<lparr>enabled_chats := False\<rparr>\<rparr>)
          ''chat1'' (Some ()) ex_state)) = []"
  using insertVectorItems_validates [where e = ex_env_openai and k = OPENAI
      and x = "Error (Some api_key_missing)" and collectionId = "''chat1''"
      and items = "[ex_item1]" and response = "Some ()" and s = ex_state]
    insertVectorItems_validates [where e = ex_env_ollama]
    insertVectorItems_validates [where e = "ex_env_ollama\<lparr>settings :=
      ex_settings\<lparr>source := ''ollama'', ollama_model := []\<rparr>,
      server_urls := (\<lambda>t. ''http://localhost'')\<rparr>"]
    insertVectorItems_validates [where e = ex_env_extras]
    insertVectorItems_validates [where e = ex_env and collectionId = "''chat1''"
      and items = "[ex_item1]" and response = "Some ()" and s = ex_state]
    insertVectorItems_validates [where e = "ex_env\<lparr>settings := ex_settings\<lparr>enabled_chats := False\<rparr>\<rparr>"
      and collectionId = "''chat1''" and response = "Some ()" and s = ex_state]
  by (simp add: ex_defs client_defs)

text \<open>
  The claim as stated fails: with the source \<^verbatim>\<open>openai\<close> and no stored key, listing the
  hashes of a collection sends its request and returns the answer.
\<close>

theorem insertVectorItems_validates_counterexample:
  "source (settings ex_env_openai) = ''openai'' \<and> \<not> secret_state ex_env_openai OPENAI \<and>
   throwIfSourceInvalid ex_env_openai = Inl (Error (Some api_key_missing)) \<and>
   fst (getSavedHashes ex_env_openai ''chat1'' (Some [1]) ex_state) = Inr [1] \<and>
   requests (snd (getSavedHashes ex_env_openai ''chat1'' (Some [1]) ex_state)) =
     [ListReq ''chat1'' ''openai'']"
  by (simp add: ex_defs client_defs)

text \<open>
  The two query operations send their request in every case.
\<close>

lemma query_sends_unvalidated:
  "requests (snd (queryCollection e collectionId searchText topK response s)) =
     requests s @ [QueryReq collectionId searchText topK (source (settings e))] \<and>
   requests (snd (queryMultipleCollections e collectionIds searchText topK multi s)) =
     requests s @ [QueryMultiReq collectionIds searchText topK (source (settings e))]"
  by (simp add: queryCollection_def queryMultipleCollections_def send_def Let_def
        split: option.splits)

end
